theory Spec2Isabelle
  imports Complex_Main "HOL-Library.Multiset" "HOL-Library.Sublist"
begin

section \<open>JavaScript values\<close>

text \<open>
  The module \<^verbatim>\<open>divertscan_quickbooks_export.js\<close> works on untyped records. A field of
  a raw record holds a JavaScript primitive; a missing field reads as \<^verbatim>\<open>undefined\<close>.

  Numbers are IEEE doubles in the source. Here a finite number is an exact rational, so
  the arithmetic of the model is the exact arithmetic that the doubles approximate; the
  model agrees with the source wherever the double operations are exact (for instance on
  dyadic fractions of moderate size, which the concrete inputs below use). \<^verbatim>\<open>NaN\<close> and the
  two infinities are separate values; negative zero is not distinguished from zero.
  Strings are lists of 8-bit characters.
\<close>

datatype jsnum = NaN | PInf | NInf | Fin rat

datatype jsval = Undefined | Null | Bool bool | Num jsnum | Str string

text \<open>A raw record: \<^verbatim>\<open>load.field\<close> is the application to the field's name.\<close>

type_synonym raw = "string \<Rightarrow> jsval"

text \<open>\<^verbatim>\<open>ToBoolean\<close>: the falsy values are undefined, null, false, 0, NaN and the empty string.\<close>

fun truthy :: "jsval \<Rightarrow> bool" where
  "truthy Undefined = False"
| "truthy Null = False"
| "truthy (Bool b) = b"
| "truthy (Num NaN) = False"
| "truthy (Num (Fin r)) = (r \<noteq> 0)"
| "truthy (Num PInf) = True"
| "truthy (Num NInf) = True"
| "truthy (Str s) = (s \<noteq> [])"

text \<open>The operator \<^verbatim>\<open>a || b\<close>: the left operand when it is truthy, the right one otherwise.\<close>

definition or_js :: "jsval \<Rightarrow> jsval \<Rightarrow> jsval" where
  "or_js a b = (if truthy a then a else b)"

subsection \<open>Numbers\<close>

text \<open>\<^verbatim>\<open>x > 0\<close> is false for NaN.\<close>

fun gt0 :: "jsnum \<Rightarrow> bool" where
  "gt0 (Fin r) = (0 < r)"
| "gt0 PInf = True"
| "gt0 NInf = False"
| "gt0 NaN = False"

text \<open>Multiplication or division by a positive constant (\<^verbatim>\<open>* 125.00\<close>, \<^verbatim>\<open>/ 2000\<close>).\<close>

fun num_scale :: "jsnum \<Rightarrow> rat \<Rightarrow> jsnum" where
  "num_scale (Fin r) c = Fin (r * c)"
| "num_scale PInf c = PInf"
| "num_scale NInf c = NInf"
| "num_scale NaN c = NaN"

fun num_add :: "jsnum \<Rightarrow> jsnum \<Rightarrow> jsnum" where
  "num_add (Fin a) (Fin b) = Fin (a + b)"
| "num_add NaN b = NaN"
| "num_add a NaN = NaN"
| "num_add PInf NInf = NaN"
| "num_add NInf PInf = NaN"
| "num_add PInf b = PInf"
| "num_add a PInf = PInf"
| "num_add NInf b = NInf"
| "num_add a NInf = NInf"

subsection \<open>Decimal digits\<close>

definition digit_char :: "nat \<Rightarrow> char" where
  "digit_char d = ''0123456789'' ! d"

fun nat_digits :: "nat \<Rightarrow> string" where
  "nat_digits n = (if n < 10 then [digit_char n] else nat_digits (n div 10) @ [digit_char (n mod 10)])"

declare nat_digits.simps [simp del]

definition is_digit :: "char \<Rightarrow> bool" where
  "is_digit c = (c \<in> set ''0123456789'')"

definition digit_of :: "char \<Rightarrow> nat" where
  "digit_of c = of_char c - 48"

definition digits_val :: "string \<Rightarrow> nat" where
  "digits_val s = foldl (\<lambda>a c. 10 * a + digit_of c) 0 s"

text \<open>
  White space as \<^verbatim>\<open>trim\<close>, \<^verbatim>\<open>\s\<close>, \<^verbatim>\<open>parseFloat\<close> and \<^verbatim>\<open>Number\<close> see it, within 8-bit
  characters: TAB, LF, VT, FF, CR, space and the no-break space.
\<close>

definition is_ws :: "char \<Rightarrow> bool" where
  "is_ws c = (of_char c \<in> {9, 10, 11, 12, 13, 32, 160 :: nat})"

subsection \<open>The environment\<close>

text \<open>
  What the source takes from the JavaScript runtime and the clock, and what the standard
  leaves to the implementation, is a parameter of the model:
  \<^item> \<open>now_iso\<close>: \<^verbatim>\<open>new Date().toISOString()\<close>;
  \<^item> \<open>date_parts\<close>: for \<^verbatim>\<open>d = new Date(v)\<close> the local calendar fields
    \<^verbatim>\<open>(d.getFullYear(), d.getMonth(), d.getDate())\<close>, or \<open>None\<close> when \<^verbatim>\<open>d\<close> is an
    Invalid Date (its getters return NaN);
  \<^item> \<open>num_str\<close>: \<^verbatim>\<open>Number::toString\<close> of a finite number that is not an integer below
    \<open>10^21\<close> (the shortest digits that read back as the same double);
  \<^item> \<open>due_date\<close>: the due date of \<^verbatim>\<open>buildCSV\<close>, the invoice date parsed, advanced by 30
    days and printed by \<^verbatim>\<open>toLocaleDateString('en-US')\<close>;
  \<^item> \<open>today_locale\<close>: \<^verbatim>\<open>new Date().toLocaleDateString()\<close>.
\<close>

record env =
  now_iso :: string
  date_parts :: "jsval \<Rightarrow> (int \<times> nat \<times> nat) option"
  num_str :: "rat \<Rightarrow> string"
  due_date :: "string \<Rightarrow> string"
  today_locale :: string

subsection \<open>Conversion to strings\<close>

definition int_str :: "int \<Rightarrow> string" where
  "int_str i = (if i < 0 then CHR ''-'' # nat_digits (nat (- i)) else nat_digits (nat i))"

text \<open>\<^verbatim>\<open>ToString\<close>, as \<^verbatim>\<open>String(v)\<close>, a template literal and a property key apply it.\<close>

fun toString_js :: "env \<Rightarrow> jsval \<Rightarrow> string" where
  "toString_js e Undefined = ''undefined''"
| "toString_js e Null = ''null''"
| "toString_js e (Bool b) = (if b then ''true'' else ''false'')"
| "toString_js e (Num NaN) = ''NaN''"
| "toString_js e (Num PInf) = ''Infinity''"
| "toString_js e (Num NInf) = ''-Infinity''"
| "toString_js e (Num (Fin r)) =
     (if of_int \<lfloor>r\<rfloor> = r \<and> \<bar>r\<bar> < 10 ^ 21 then int_str \<lfloor>r\<rfloor> else num_str e r)"
| "toString_js e (Str s) = s"

text \<open>
  \<^verbatim>\<open>Number.prototype.toFixed(d)\<close>: the sign is taken first, then the integer \<open>n\<close> with
  \<open>n / 10^d\<close> nearest to \<open>\<bar>x\<bar>\<close> (the larger one on a tie), printed with \<open>d\<close> digits after the
  point. From \<open>10^21\<close> on the result is \<^verbatim>\<open>ToString\<close> of the number.
\<close>

definition fixed_str :: "nat \<Rightarrow> nat \<Rightarrow> string" where
  "fixed_str d n =
     (let m = nat_digits n;
          m' = replicate (d + 1 - length m) CHR ''0'' @ m
      in if d = 0 then m
         else take (length m' - d) m' @ ''.'' @ drop (length m' - d) m')"

definition round_half_up :: "rat \<Rightarrow> nat \<Rightarrow> nat" where
  "round_half_up x d = nat \<lfloor>x * 10 ^ d + 1 / 2\<rfloor>"

fun toFixed :: "env \<Rightarrow> jsnum \<Rightarrow> nat \<Rightarrow> string" where
  "toFixed e NaN d = ''NaN''"
| "toFixed e PInf d = ''Infinity''"
| "toFixed e NInf d = ''-Infinity''"
| "toFixed e (Fin x) d =
     (if x < 0 then ''-'' else '''') @
     (if 10 ^ 21 \<le> \<bar>x\<bar> then num_str e \<bar>x\<bar> else fixed_str d (round_half_up \<bar>x\<bar> d))"

subsection \<open>Reading numbers from strings\<close>

text \<open>
  The grammar \<^verbatim>\<open>StrDecimalLiteral\<close>: an optional sign, then \<^verbatim>\<open>Infinity\<close> or digits with
  an optional fraction and an optional exponent. Each parser returns what it read and
  the rest of the string.
\<close>

fun parse_sign :: "string \<Rightarrow> bool \<times> string" where
  "parse_sign [] = (False, [])"
| "parse_sign (c # cs) =
     (if c = CHR ''-'' then (True, cs) else if c = CHR ''+'' then (False, cs) else (False, c # cs))"

definition pow10 :: "int \<Rightarrow> rat" where
  "pow10 k = (if 0 \<le> k then 10 ^ nat k else 1 / 10 ^ nat (- k))"

text \<open>An exponent part counts only when at least one digit follows the \<^verbatim>\<open>e\<close> and the sign.\<close>

definition parse_exponent :: "string \<Rightarrow> int \<times> string" where
  "parse_exponent s =
     (case s of
        [] \<Rightarrow> (0, s)
      | c # cs \<Rightarrow>
          if c = CHR ''e'' \<or> c = CHR ''E'' then
            (let (neg, r) = parse_sign cs; ds = takeWhile is_digit r
             in if ds = [] then (0, s)
                else (if neg then - int (digits_val ds) else int (digits_val ds), dropWhile is_digit r))
          else (0, s))"

definition parse_unsigned :: "string \<Rightarrow> (rat \<times> string) option" where
  "parse_unsigned s =
     (let ip = takeWhile is_digit s;
          r1 = dropWhile is_digit s;
          (fp, r2) = (case r1 of
                        [] \<Rightarrow> ([], r1)
                      | c # cs \<Rightarrow> if c = CHR ''.'' then (takeWhile is_digit cs, dropWhile is_digit cs)
                                 else ([], r1))
      in if ip = [] \<and> fp = [] then None
         else (let (k, r3) = parse_exponent r2
               in Some ((of_nat (digits_val ip) + of_nat (digits_val fp) / 10 ^ length fp) * pow10 k, r3)))"

definition parse_decimal :: "string \<Rightarrow> (jsnum \<times> string) option" where
  "parse_decimal s =
     (let (neg, r) = parse_sign s
      in if take 8 r = ''Infinity'' then Some (if neg then NInf else PInf, drop 8 r)
         else (case parse_unsigned r of
                 None \<Rightarrow> None
               | Some (x, r') \<Rightarrow> Some (Fin (if neg then - x else x), r')))"

text \<open>
  \<^verbatim>\<open>parseFloat\<close> on a string skips leading white space and reads the longest prefix that
  is a decimal literal; with no such prefix the result is NaN.
\<close>

definition parseFloat_str :: "string \<Rightarrow> jsnum" where
  "parseFloat_str s =
     (case parse_decimal (dropWhile is_ws s) of None \<Rightarrow> NaN | Some (x, r) \<Rightarrow> x)"

text \<open>
  \<^verbatim>\<open>parseFloat(v)\<close> converts its argument to a string first. A number prints as digits
  that read back as the same number; \<^verbatim>\<open>undefined\<close>, \<^verbatim>\<open>null\<close>, \<^verbatim>\<open>true\<close> and \<^verbatim>\<open>false\<close> do
  not begin with a decimal literal.
\<close>

fun parseFloat :: "jsval \<Rightarrow> jsnum" where
  "parseFloat (Num n) = n"
| "parseFloat (Str s) = parseFloat_str s"
| "parseFloat Undefined = NaN"
| "parseFloat Null = NaN"
| "parseFloat (Bool b) = NaN"

text \<open>
  \<^verbatim>\<open>Number(s)\<close> on a string: white space around the literal is dropped, the empty string
  is 0, and the whole of the rest must be one literal. The source applies it to the output
  of \<^verbatim>\<open>toFixed\<close> only, so the hexadecimal, octal and binary literals are left out.
\<close>

definition Number_str :: "string \<Rightarrow> jsnum" where
  "Number_str s =
     (let t = dropWhile is_ws s
      in if t = [] then Fin 0
         else (case parse_decimal t of
                 None \<Rightarrow> NaN
               | Some (x, r) \<Rightarrow> if dropWhile is_ws r = [] then x else NaN))"

section \<open>Record normalizer and weight resolver\<close>

text \<open>The canonical load that \<^verbatim>\<open>normalizeLoad\<close> returns.\<close>

record load =
  id_field :: jsval
  date :: jsval
  ticketNumber :: jsval
  hauler :: jsval
  truckId :: jsval
  weightTons :: jsnum
  weightLbs :: jsnum
  materialType :: jsval
  carbonSaved :: jsnum
  hash :: jsval
  projectId :: jsval
  projectName :: jsval
  notes_field :: jsval

definition normalizeLoad :: "env \<Rightarrow> raw \<Rightarrow> load" where
  "normalizeLoad e l =
     \<lparr> id_field = or_js (or_js (or_js (l ''id'') (l ''loadId'')) (l ''load_id'')) (Str ''N/A''),
       date = or_js (or_js (or_js (or_js (l ''date'') (l ''loadDate'')) (l ''load_date''))
                (l ''created_at'')) (Str (now_iso e)),
       ticketNumber = or_js (or_js (or_js (l ''ticketNumber'') (l ''ticket_number'')) (l ''ticket''))
                (Str ''''),
       hauler = or_js (or_js (or_js (l ''hauler'') (l ''haulerName'')) (l ''hauler_name'')) (Str ''''),
       truckId = or_js (or_js (or_js (l ''truckId'') (l ''truck_id'')) (l ''vehicle'')) (Str ''''),
       weightTons = parseFloat (or_js (or_js (or_js (or_js (l ''weightTons'') (l ''weight_tons''))
                (l ''net_weight_tons'')) (l ''netWeightTons'')) (Num (Fin 0))),
       weightLbs = parseFloat (or_js (or_js (or_js (l ''weightLbs'') (l ''weight_lbs''))
                (l ''net_weight_lbs'')) (Num (Fin 0))),
       materialType = or_js (or_js (or_js (l ''materialType'') (l ''material_type'')) (l ''material''))
                (Str ''Mixed C&D''),
       carbonSaved = parseFloat (or_js (or_js (or_js (l ''carbonSaved'') (l ''carbon_saved''))
                (l ''co2e_savings'')) (Num (Fin 0))),
       hash = or_js (or_js (or_js (l ''hash'') (l ''sha256Hash'')) (l ''sha256_hash'')) (Str ''''),
       projectId = or_js (or_js (l ''projectId'') (l ''project_id'')) (Str ''UNASSIGNED''),
       projectName = or_js (or_js (l ''projectName'') (l ''project_name'')) (Str ''Unassigned Project''),
       notes_field = or_js (l ''notes'') (Str '''') \<rparr>"

text \<open>
  \<^verbatim>\<open>resolveWeightTons\<close>: the tons when positive; else the pounds over 2000, printed with four
  decimals and read back by \<^verbatim>\<open>Number\<close>; else 0.
\<close>

definition resolveWeightTons :: "env \<Rightarrow> load \<Rightarrow> jsnum" where
  "resolveWeightTons e l =
     (if gt0 (weightTons l) then weightTons l
      else if gt0 (weightLbs l) then Number_str (toFixed e (num_scale (weightLbs l) (1 / 2000)) 4)
      else Fin 0)"


section \<open>Strings and arrays of the runtime\<close>

definition TAB :: char where "TAB = CHR 0x09"
definition LF :: char where "LF = CHR 0x0A"
definition CR :: char where "CR = CHR 0x0D"
definition DQUOTE :: char where "DQUOTE = CHR 0x22"

definition CRLF :: string where "CRLF = [CR, LF]"

text \<open>\<^verbatim>\<open>Array.prototype.join\<close> on an array of strings.\<close>

fun join_js :: "string \<Rightarrow> string list \<Rightarrow> string" where
  "join_js sep [] = []"
| "join_js sep [x] = x"
| "join_js sep (x # y # ys) = x @ sep @ join_js sep (y # ys)"

definition trim_js :: "string \<Rightarrow> string" where
  "trim_js s = rev (dropWhile is_ws (rev (dropWhile is_ws s)))"

text \<open>The character class \<^verbatim>\<open>[a-zA-Z0-9]\<close>.\<close>

definition is_alnum :: "char \<Rightarrow> bool" where
  "is_alnum c =
     (let n = (of_char c :: nat)
      in (48 \<le> n \<and> n \<le> 57) \<or> (65 \<le> n \<and> n \<le> 90) \<or> (97 \<le> n \<and> n \<le> 122))"

text \<open>\<^verbatim>\<open>String.prototype.padStart(2, '0')\<close>.\<close>

definition padStart2 :: "string \<Rightarrow> string" where
  "padStart2 s = replicate (2 - length s) CHR ''0'' @ s"

section \<open>Configuration\<close>

definition INCOME_ACCOUNT :: string where "INCOME_ACCOUNT = ''LEED Compliance Services''"
definition AR_ACCOUNT :: string where "AR_ACCOUNT = ''Accounts Receivable''"
definition CLASS_PREFIX :: string where "CLASS_PREFIX = ''LEED-''"
definition RATE_PER_TON :: rat where "RATE_PER_TON = 125"
definition TERMS :: string where "TERMS = ''Net 30''"
definition MEMO_PREFIX :: string where "MEMO_PREFIX = ''DivertScan Load''"

section \<open>Errors\<close>

text \<open>
  A thrown \<^verbatim>\<open>Error\<close> with its message, a rejected promise likewise, and the
  \<^verbatim>\<open>TypeError\<close> that the runtime raises when a method is called on a value that has none.
\<close>

datatype error = Error string | TypeError

definition NoData :: error where
  "NoData = Error ''No confirmed loads found. Check that loads are synced.''"

section \<open>Load resolver\<close>

text \<open>
  What the IndexedDB request of \<^verbatim>\<open>getLoadsFromDB\<close> can do: the open fails, the database
  has neither a \<^verbatim>\<open>loads\<close> nor a \<^verbatim>\<open>scans\<close> store, the read fails, or the read returns
  every record of the store.
\<close>

datatype store_outcome = Open_failed | No_store | Read_failed | Records "raw list"

definition confirmed :: "raw \<Rightarrow> bool" where
  "confirmed l = (l ''status'' \<noteq> Str ''draft'' \<and> l ''status'' \<noteq> Str ''pending_upload'')"

definition in_scope :: "env \<Rightarrow> jsval \<Rightarrow> raw \<Rightarrow> bool" where
  "in_scope e pid l = (toString_js e (l ''projectId'') = toString_js e pid)"

definition scoped :: "env \<Rightarrow> jsval \<Rightarrow> raw list \<Rightarrow> raw list" where
  "scoped e pid loads = (if truthy pid then filter (in_scope e pid) loads else loads)"

fun getLoadsFromDB :: "env \<Rightarrow> jsval \<Rightarrow> store_outcome \<Rightarrow> error + raw list" where
  "getLoadsFromDB e pid Open_failed = Inl (Error ''IndexedDB unavailable'')"
| "getLoadsFromDB e pid No_store = Inr []"
| "getLoadsFromDB e pid Read_failed = Inl (Error ''Failed to read loads from IndexedDB'')"
| "getLoadsFromDB e pid (Records loads) = Inr (filter confirmed (scoped e pid loads))"

text \<open>
  The remote source answers with a JSON body of one of the two shapes of its interface,
  \<^verbatim>\<open>{ loads: [...] }\<close> or a bare array; a timeout, a network error, a status that is not ok
  or a body that is not JSON make \<^verbatim>\<open>getLoadsFromAPI\<close> return \<^verbatim>\<open>null\<close>.
\<close>

datatype api_body = Loads_object "raw list" | Bare_array "raw list"

datatype api_outcome = Api_failed | Api_body api_body

fun getLoadsFromAPI :: "api_outcome \<Rightarrow> raw list option" where
  "getLoadsFromAPI Api_failed = None"
| "getLoadsFromAPI (Api_body (Loads_object loads)) = Some loads"
| "getLoadsFromAPI (Api_body (Bare_array loads)) = Some loads"

text \<open>
  The two sources and \<^verbatim>\<open>navigator.onLine\<close>. The remote source is a function of the scope
  it is asked for.
\<close>

record sources =
  local_store :: store_outcome
  onLine :: bool
  remote :: "jsval \<Rightarrow> api_outcome"

text \<open>\<^verbatim>\<open>await getLoadsFromDB(projectId).catch(() => [])\<close>: a rejection becomes the empty array.\<close>

definition local_loads :: "env \<Rightarrow> jsval \<Rightarrow> store_outcome \<Rightarrow> raw list" where
  "local_loads e pid st = (case getLoadsFromDB e pid st of Inl err \<Rightarrow> [] | Inr ls \<Rightarrow> ls)"

text \<open>
  \<^verbatim>\<open>resolveLoads\<close> returns its result together with a flag that tells whether
  \<^verbatim>\<open>getLoadsFromAPI\<close> was called.
\<close>

definition resolveLoads :: "env \<Rightarrow> jsval \<Rightarrow> sources \<Rightarrow> bool \<times> (error + raw list)" where
  "resolveLoads e pid w =
     (let loads = local_loads e pid (local_store w);
          queried = (length loads = 0 \<and> onLine w);
          loads' = (if queried
                    then (case getLoadsFromAPI (remote w pid) of
                            None \<Rightarrow> loads
                          | Some apiLoads \<Rightarrow> if 0 < length apiLoads then apiLoads else loads)
                    else loads)
      in (queried, if length loads' = 0 then Inl NoData else Inr loads'))"

section \<open>Project grouping\<close>

text \<open>
  A project group, and the object that \<^verbatim>\<open>groupByProject\<close> builds: its own properties in
  the order of their creation, under their property keys (strings).
\<close>

record group =
  group_projectId :: jsval
  group_projectName :: jsval
  group_loads :: "raw list"

type_synonym groups = "(string \<times> group) list"

text \<open>
  The accumulator starts as \<^verbatim>\<open>{}\<close>, which inherits the properties of
  \<^verbatim>\<open>Object.prototype\<close>. Reading one of these names from an object that has no own
  property of that name gives the inherited function (or, for \<^verbatim>\<open>__proto__\<close>, the
  prototype itself): a truthy value with no \<^verbatim>\<open>loads\<close> property.
\<close>

definition object_prototype_keys :: "string list" where
  "object_prototype_keys =
     [''constructor'', ''__proto__'', ''hasOwnProperty'', ''isPrototypeOf'',
      ''propertyIsEnumerable'', ''toLocaleString'', ''toString'', ''valueOf'',
      ''__defineGetter__'', ''__defineSetter__'', ''__lookupGetter__'', ''__lookupSetter__'']"

definition group_key :: "raw \<Rightarrow> jsval" where
  "group_key l = or_js (or_js (l ''projectId'') (l ''project_id'')) (Str ''UNASSIGNED'')"

fun push_load :: "string \<Rightarrow> raw \<Rightarrow> groups \<Rightarrow> groups" where
  "push_load k l [] = []"
| "push_load k l ((k', g) # rest) =
     (if k = k' then (k', g\<lparr>group_loads := group_loads g @ [l]\<rparr>) # rest
      else (k', g) # push_load k l rest)"

text \<open>
  One step of the \<^verbatim>\<open>reduce\<close>. With an own property under the key the load is pushed to
  its group. With none, an inherited property makes \<^verbatim>\<open>!acc[key]\<close> false, and
  \<^verbatim>\<open>acc[key].loads.push\<close> then reads \<^verbatim>\<open>push\<close> from \<^verbatim>\<open>undefined\<close>; otherwise the group is
  created and the load pushed.
\<close>

definition groupByProject_step :: "env \<Rightarrow> groups \<Rightarrow> raw \<Rightarrow> error + groups" where
  "groupByProject_step e acc l =
     (let key = group_key l; k = toString_js e key
      in case map_of acc k of
           Some g \<Rightarrow> Inr (push_load k l acc)
         | None \<Rightarrow>
             if k \<in> set object_prototype_keys then Inl TypeError
             else Inr (acc @ [(k, \<lparr> group_projectId = key,
                                   group_projectName = or_js (or_js (l ''projectName'') (l ''project_name'')) key,
                                   group_loads = [l] \<rparr>)]))"

fun groupByProject_from :: "env \<Rightarrow> groups \<Rightarrow> raw list \<Rightarrow> error + groups" where
  "groupByProject_from e acc [] = Inr acc"
| "groupByProject_from e acc (l # ls) =
     (case groupByProject_step e acc l of
        Inl err \<Rightarrow> Inl err
      | Inr acc' \<Rightarrow> groupByProject_from e acc' ls)"

definition groupByProject :: "env \<Rightarrow> raw list \<Rightarrow> error + groups" where
  "groupByProject e loads = groupByProject_from e [] loads"

text \<open>
  \<^verbatim>\<open>Object.entries\<close>: the keys that are array indices (canonical decimal numerals below
  \<open>2^32 - 1\<close>) come first, in ascending numeric order, then the other keys in the order of
  their creation.
\<close>

definition is_array_index :: "string \<Rightarrow> bool" where
  "is_array_index k =
     (k \<noteq> [] \<and> list_all is_digit k \<and> (k = ''0'' \<or> hd k \<noteq> CHR ''0'') \<and> digits_val k < 2 ^ 32 - 1)"

definition object_entries :: "(string \<times> 'a) list \<Rightarrow> (string \<times> 'a) list" where
  "object_entries obj =
     sort_key (\<lambda>p. digits_val (fst p)) (filter (\<lambda>p. is_array_index (fst p)) obj)
     @ filter (\<lambda>p. \<not> is_array_index (fst p)) obj"

section \<open>Date formatter and date batches\<close>

text \<open>
  \<^verbatim>\<open>toQBDate\<close>. Neither \<^verbatim>\<open>new Date(v)\<close> nor a getter throws on a primitive, so the
  \<^verbatim>\<open>catch\<close> branch is never entered: an Invalid Date yields NaN from every getter, and
  \<^verbatim>\<open>String(NaN).padStart(2, '0')\<close> is \<^verbatim>\<open>NaN\<close>.
\<close>

definition toQBDate :: "env \<Rightarrow> jsval \<Rightarrow> string" where
  "toQBDate e v =
     (case date_parts e v of
        None \<Rightarrow> ''NaN'' @ ''/'' @ ''NaN'' @ ''/'' @ ''NaN''
      | Some (yyyy, month, day) \<Rightarrow>
          padStart2 (nat_digits (month + 1)) @ ''/'' @ padStart2 (nat_digits day) @ ''/'' @ int_str yyyy)"

text \<open>
  The \<^verbatim>\<open>reduce\<close> that batches the loads of a project by date key. A date key contains
  \<^verbatim>\<open>/\<close>, so it is neither an inherited property name nor an array index, and
  \<^verbatim>\<open>Object.entries\<close> lists the batches in the order of their creation.
\<close>

fun byDate_push :: "string \<Rightarrow> load \<Rightarrow> (string \<times> load list) list \<Rightarrow> (string \<times> load list) list" where
  "byDate_push k l [] = [(k, [l])]"
| "byDate_push k l ((k', ls) # rest) =
     (if k = k' then (k', ls @ [l]) # rest else (k', ls) # byDate_push k l rest)"

definition byDate :: "env \<Rightarrow> load list \<Rightarrow> (string \<times> load list) list" where
  "byDate e loads = foldl (\<lambda>acc l. byDate_push (toQBDate e (date l)) l acc) [] loads"

section \<open>Interchange serializers\<close>

text \<open>
  Both serializers run the same two loops: over the entries of the project groups, and
  within a project over its date batches, taking one document number per batch from a
  counter. The model keeps the lines of each batch together with the project key, the
  invoice date and the document number of the batch; the document is the header followed
  by the lines of all batches in order. A \<^verbatim>\<open>TypeError\<close> anywhere aborts the whole call.
\<close>

record invoice =
  inv_projectId :: string
  inv_date :: string
  inv_docNum :: string
  inv_lines :: "string list"

definition ticket_or_id :: "load \<Rightarrow> jsval" where
  "ticket_or_id l = or_js (ticketNumber l) (id_field l)"

subsection \<open>Format A: \<^verbatim>\<open>buildIIF\<close>\<close>

text \<open>\<^verbatim>\<open>projectName.replace(/[^a-zA-Z0-9\s\-]/g, '').trim()\<close> after the class prefix.\<close>

definition qbClass_iif :: "string \<Rightarrow> string" where
  "qbClass_iif name =
     CLASS_PREFIX @ trim_js (filter (\<lambda>c. is_alnum c \<or> is_ws c \<or> c = CHR ''-'') name)"

definition invoiceTotal :: "env \<Rightarrow> load list \<Rightarrow> string" where
  "invoiceTotal e dayLoads =
     toFixed e (foldl (\<lambda>sum l. num_add sum (num_scale (resolveWeightTons e l) RATE_PER_TON))
                  (Fin 0) dayLoads) 2"

definition lineAmount :: "env \<Rightarrow> load \<Rightarrow> string" where
  "lineAmount e l = toFixed e (num_scale (resolveWeightTons e l) RATE_PER_TON) 2"

text \<open>
  The memo of a detail line. \<^verbatim>\<open>load.hash.substring\<close> exists on a string only: a truthy
  hash of another type raises a \<^verbatim>\<open>TypeError\<close>.
\<close>

definition iif_memo :: "env \<Rightarrow> load \<Rightarrow> error + string" where
  "iif_memo e l =
     (case (if truthy (hash l)
            then (case hash l of Str h \<Rightarrow> Inr (Str (''| SHA:'' @ take 8 h)) | _ \<Rightarrow> Inl TypeError)
            else Inr (Str '''')) of
        Inl err \<Rightarrow> Inl err
      | Inr sha \<Rightarrow>
          Inr (join_js '' '' (map (toString_js e) (filter truthy
                 [Str (MEMO_PREFIX @ '' #'' @ toString_js e (ticket_or_id l)),
                  materialType l,
                  (if truthy (hauler l) then Str (''| '' @ toString_js e (hauler l)) else Str ''''),
                  sha]))))"

definition iif_header :: "string list" where
  "iif_header =
     [join_js [TAB] [''!TRNS'', ''TRNSTYPE'', ''DATE'', ''ACCNT'', ''NAME'', ''CLASS'', ''AMOUNT'',
                     ''DOCNUM'', ''MEMO'', ''CLEAR'', ''TOPRINT'', ''TERMS''],
      join_js [TAB] [''!SPL'', ''TRNSTYPE'', ''DATE'', ''ACCNT'', ''NAME'', ''CLASS'', ''AMOUNT'',
                     ''DOCNUM'', ''MEMO'', ''CLEAR'', ''QNTY'', ''PRICE'', ''INVITEM''],
      ''!ENDTRNS'']"

definition trns_line :: "env \<Rightarrow> string \<Rightarrow> string \<Rightarrow> string \<Rightarrow> string \<Rightarrow> load list \<Rightarrow> string" where
  "trns_line e invoiceDate name qbClass docNum dayLoads =
     join_js [TAB]
       [''TRNS'', ''INVOICE'', invoiceDate, AR_ACCOUNT, name, qbClass, invoiceTotal e dayLoads,
        docNum, ''LEED Compliance Documentation - '' @ name, ''N'', ''Y'', TERMS]"

definition spl_line :: "env \<Rightarrow> string \<Rightarrow> string \<Rightarrow> string \<Rightarrow> string \<Rightarrow> load \<Rightarrow> error + string" where
  "spl_line e invoiceDate name qbClass docNum l =
     (let tons = resolveWeightTons e l
      in case iif_memo e l of
           Inl err \<Rightarrow> Inl err
         | Inr memo \<Rightarrow>
             Inr (join_js [TAB]
                   [''SPL'', ''INVOICE'', invoiceDate, INCOME_ACCOUNT, name, qbClass,
                    ''-'' @ lineAmount e l, docNum, memo, ''N'', toFixed e tons 4,
                    toFixed e (Fin RATE_PER_TON) 2, ''LEED Compliance Documentation'']))"

fun spl_lines :: "env \<Rightarrow> string \<Rightarrow> string \<Rightarrow> string \<Rightarrow> string \<Rightarrow> load list \<Rightarrow> error + string list" where
  "spl_lines e invoiceDate name qbClass docNum [] = Inr []"
| "spl_lines e invoiceDate name qbClass docNum (l # ls) =
     (case spl_line e invoiceDate name qbClass docNum l of
        Inl err \<Rightarrow> Inl err
      | Inr line \<Rightarrow>
          (case spl_lines e invoiceDate name qbClass docNum ls of
             Inl err \<Rightarrow> Inl err
           | Inr rest \<Rightarrow> Inr (line # rest)))"

text \<open>The loop over the date batches of one project; \<open>n\<close> is \<^verbatim>\<open>invoiceNumber\<close>.\<close>

fun iif_batches ::
  "env \<Rightarrow> string \<Rightarrow> string \<Rightarrow> string \<Rightarrow> nat \<Rightarrow> (string \<times> load list) list \<Rightarrow> error + (invoice list \<times> nat)" where
  "iif_batches e pid name qbClass n [] = Inr ([], n)"
| "iif_batches e pid name qbClass n ((invoiceDate, dayLoads) # bs) =
     (let docNum = ''DS-'' @ nat_digits n
      in case spl_lines e invoiceDate name qbClass docNum dayLoads of
           Inl err \<Rightarrow> Inl err
         | Inr spl \<Rightarrow>
             (case iif_batches e pid name qbClass (n + 1) bs of
                Inl err \<Rightarrow> Inl err
              | Inr (invs, n') \<Rightarrow>
                  Inr (\<lparr> inv_projectId = pid, inv_date = invoiceDate, inv_docNum = docNum,
                         inv_lines = trns_line e invoiceDate name qbClass docNum dayLoads # spl
                                     @ [''ENDTRNS''] \<rparr> # invs, n')))"

text \<open>
  The loop over the projects. \<^verbatim>\<open>projectName.replace\<close> exists on a string only: a project
  name of another type raises a \<^verbatim>\<open>TypeError\<close>.
\<close>

fun iif_projects :: "env \<Rightarrow> nat \<Rightarrow> (string \<times> group) list \<Rightarrow> error + (invoice list \<times> nat)" where
  "iif_projects e n [] = Inr ([], n)"
| "iif_projects e n ((pid, g) # gs) =
     (case group_projectName g of
        Str name \<Rightarrow>
          (let qbClass = qbClass_iif name;
               loads = map (normalizeLoad e) (group_loads g)
           in case iif_batches e pid name qbClass n (byDate e loads) of
                Inl err \<Rightarrow> Inl err
              | Inr (invs, n') \<Rightarrow>
                  (case iif_projects e n' gs of
                     Inl err \<Rightarrow> Inl err
                   | Inr (invs', n'') \<Rightarrow> Inr (invs @ invs', n'')))
      | _ \<Rightarrow> Inl TypeError)"

definition buildIIF_invoices :: "env \<Rightarrow> groups \<Rightarrow> error + invoice list" where
  "buildIIF_invoices e projectGroups =
     (case iif_projects e 1000 (object_entries projectGroups) of
        Inl err \<Rightarrow> Inl err
      | Inr (invs, n) \<Rightarrow> Inr invs)"

definition buildIIF_lines :: "env \<Rightarrow> groups \<Rightarrow> error + string list" where
  "buildIIF_lines e projectGroups =
     (case buildIIF_invoices e projectGroups of
        Inl err \<Rightarrow> Inl err
      | Inr invs \<Rightarrow> Inr (iif_header @ concat (map inv_lines invs)))"

definition buildIIF :: "env \<Rightarrow> groups \<Rightarrow> error + string" where
  "buildIIF e projectGroups =
     (case buildIIF_lines e projectGroups of
        Inl err \<Rightarrow> Inl err
      | Inr lines \<Rightarrow> Inr (join_js CRLF lines))"

subsection \<open>Format B: \<^verbatim>\<open>buildCSV\<close>\<close>

text \<open>
  \<^verbatim>\<open>projectName.replace(/[,"\n]/g, ' ').trim()\<close> after the class prefix: every comma, double
  quote and line feed becomes a space.
\<close>

definition qbClass_csv :: "string \<Rightarrow> string" where
  "qbClass_csv name =
     CLASS_PREFIX
     @ trim_js (map (\<lambda>c. if c = CHR '','' \<or> c = DQUOTE \<or> c = LF then CHR '' '' else c) name)"

text \<open>\<^verbatim>\<open>safe\<close>: \<^verbatim>\<open>String(val ?? '')\<close> with every double quote doubled, in double quotes.\<close>

definition safe :: "env \<Rightarrow> jsval \<Rightarrow> string" where
  "safe e v =
     DQUOTE # concat (map (\<lambda>c. if c = DQUOTE then [DQUOTE, DQUOTE] else [c])
                        (toString_js e (case v of Undefined \<Rightarrow> Str '''' | Null \<Rightarrow> Str '''' | _ \<Rightarrow> v)))
     @ [DQUOTE]"

definition csv_description :: "env \<Rightarrow> load \<Rightarrow> string" where
  "csv_description e l =
     join_js '' | '' (filter (\<lambda>s. s \<noteq> [])
       [''LEED v5 MRp2 Compliance Documentation'',
        ''Load #'' @ toString_js e (ticket_or_id l),
        toString_js e (materialType l),
        (if truthy (hauler l) then ''Hauler: '' @ toString_js e (hauler l) else '''')])"

definition csv_header :: string where
  "csv_header =
     join_js '',''
       [''InvoiceNo'', ''Customer'', ''InvoiceDate'', ''DueDate'', ''Terms'', ''ItemName'',
        ''ItemDescription'', ''Qty'', ''Rate'', ''Amount'', ''Class'', ''Memo'',
        ''SHA256_Audit_Hash'', ''LoadTicket'', ''MaterialType'', ''Hauler'', ''TruckID'',
        ''CarbonSavedTons'']"

definition csv_row :: "env \<Rightarrow> string \<Rightarrow> string \<Rightarrow> string \<Rightarrow> string \<Rightarrow> load \<Rightarrow> string" where
  "csv_row e invoiceDate name qbClass docNum l =
     (let dueDate = due_date e invoiceDate;
          tons = resolveWeightTons e l;
          amount = toFixed e (num_scale tons RATE_PER_TON) 2
      in join_js '',''
           [safe e (Str docNum), safe e (Str name), safe e (Str invoiceDate), safe e (Str dueDate),
            safe e (Str TERMS), safe e (Str ''LEED Compliance Documentation''),
            safe e (Str (csv_description e l)), toFixed e tons 4, toFixed e (Fin RATE_PER_TON) 2,
            amount, safe e (Str qbClass),
            safe e (Str (''DivertScan Export | '' @ today_locale e)),
            safe e (or_js (hash l) (Str '''')), safe e (ticket_or_id l), safe e (materialType l),
            safe e (hauler l), safe e (truckId l),
            toFixed e (if truthy (Num (carbonSaved l)) then carbonSaved l else Fin 0) 4])"

fun csv_batches ::
  "env \<Rightarrow> string \<Rightarrow> string \<Rightarrow> string \<Rightarrow> nat \<Rightarrow> (string \<times> load list) list \<Rightarrow> invoice list \<times> nat" where
  "csv_batches e pid name qbClass n [] = ([], n)"
| "csv_batches e pid name qbClass n ((invoiceDate, dayLoads) # bs) =
     (let docNum = ''DS-'' @ nat_digits n;
          (invs, n') = csv_batches e pid name qbClass (n + 1) bs
      in (\<lparr> inv_projectId = pid, inv_date = invoiceDate, inv_docNum = docNum,
            inv_lines = map (csv_row e invoiceDate name qbClass docNum) dayLoads \<rparr> # invs, n'))"

fun csv_projects :: "env \<Rightarrow> nat \<Rightarrow> (string \<times> group) list \<Rightarrow> error + (invoice list \<times> nat)" where
  "csv_projects e n [] = Inr ([], n)"
| "csv_projects e n ((pid, g) # gs) =
     (case group_projectName g of
        Str name \<Rightarrow>
          (let qbClass = qbClass_csv name;
               loads = map (normalizeLoad e) (group_loads g);
               (invs, n') = csv_batches e pid name qbClass n (byDate e loads)
           in case csv_projects e n' gs of
                Inl err \<Rightarrow> Inl err
              | Inr (invs', n'') \<Rightarrow> Inr (invs @ invs', n''))
      | _ \<Rightarrow> Inl TypeError)"

definition buildCSV_invoices :: "env \<Rightarrow> groups \<Rightarrow> error + invoice list" where
  "buildCSV_invoices e projectGroups =
     (case csv_projects e 1000 (object_entries projectGroups) of
        Inl err \<Rightarrow> Inl err
      | Inr (invs, n) \<Rightarrow> Inr invs)"

definition buildCSV_rows :: "env \<Rightarrow> groups \<Rightarrow> error + string list" where
  "buildCSV_rows e projectGroups =
     (case buildCSV_invoices e projectGroups of
        Inl err \<Rightarrow> Inl err
      | Inr invs \<Rightarrow> Inr (csv_header # concat (map inv_lines invs)))"

definition buildCSV :: "env \<Rightarrow> groups \<Rightarrow> error + string" where
  "buildCSV e projectGroups =
     (case buildCSV_rows e projectGroups of
        Inl err \<Rightarrow> Inl err
      | Inr rows \<Rightarrow> Inr (join_js CRLF rows))"

section \<open>A concrete environment\<close>

text \<open>
  For the concrete evaluations below: a runtime in the UTC time zone whose \<^verbatim>\<open>Date\<close> reads
  a string that begins with an ISO calendar date \<^verbatim>\<open>YYYY-MM-DD\<close> and takes anything else for
  an Invalid Date. The remaining parameters are placeholders that none of the evaluations
  depends on.
\<close>

definition iso_date_parts :: "jsval \<Rightarrow> (int \<times> nat \<times> nat) option" where
  "iso_date_parts v =
     (case v of
        Str s \<Rightarrow>
          (let y = take 4 s; m = take 2 (drop 5 s); d = take 2 (drop 8 s)
           in if 10 \<le> length s \<and> list_all is_digit y \<and> list_all is_digit m \<and> list_all is_digit d
                 \<and> take 1 (drop 4 s) = ''-'' \<and> take 1 (drop 7 s) = ''-''
                 \<and> 1 \<le> digits_val m \<and> digits_val m \<le> 12 \<and> 1 \<le> digits_val d \<and> digits_val d \<le> 31
              then Some (int (digits_val y), digits_val m - 1, digits_val d)
              else None)
      | _ \<Rightarrow> None)"

definition utc_env :: env where
  "utc_env =
     \<lparr> now_iso = ''2024-03-01T12:00:00.000Z'', date_parts = iso_date_parts,
       num_str = (\<lambda>r. ''?''), due_date = (\<lambda>s. s), today_locale = ''3/1/2024'' \<rparr>"

definition empty_raw :: raw where
  "empty_raw = (\<lambda>k. Undefined)"

section \<open>Concrete inputs\<close>

text \<open>Records of the local store, by status.\<close>

definition confirmed_load :: "nat \<Rightarrow> raw" where
  "confirmed_load i = empty_raw(''id'' := Num (Fin (of_nat i)), ''status'' := Str ''confirmed'')"

definition draft_load :: "nat \<Rightarrow> raw" where
  "draft_load i = empty_raw(''id'' := Num (Fin (of_nat i)), ''status'' := Str ''draft'')"

definition pending_load :: "nat \<Rightarrow> raw" where
  "pending_load i = empty_raw(''id'' := Num (Fin (of_nat i)), ''status'' := Str ''pending_upload'')"

text \<open>Three confirmed records and two unconfirmed ones in the store, the network up.\<close>

definition mixed_store :: "raw list" where
  "mixed_store =
     [confirmed_load 1, draft_load 2, confirmed_load 3, pending_load 4, confirmed_load 5]"

definition mixed_sources :: sources where
  "mixed_sources =
     \<lparr> local_store = Records mixed_store, onLine = True,
       remote = (\<lambda>pid. Api_body (Bare_array [confirmed_load 9])) \<rparr>"

text \<open>No confirmed record in the store, the network down.\<close>

definition offline_sources :: sources where
  "offline_sources =
     \<lparr> local_store = Records [draft_load 1, pending_load 2], onLine = False,
       remote = (\<lambda>pid. Api_body (Bare_array [confirmed_load 9])) \<rparr>"


definition bad_date_load :: raw where
  "bad_date_load = empty_raw(''date'' := Str ''not-a-date'')"




text \<open>
  Two projects. The first has two loads on one day, of 2.5 tons and of 1.0 ton, and a third
  load on the next day; the second is identified by a number.
\<close>

definition alpha1 :: raw where
  "alpha1 = empty_raw(''projectId'' := Str ''P1'', ''projectName'' := Str ''Alpha'',
     ''date'' := Str ''2024-01-15'', ''weightTons'' := Num (Fin (5 / 2)),
     ''ticketNumber'' := Str ''T-1'', ''hash'' := Str ''abcdef0123456789'')"

definition alpha2 :: raw where
  "alpha2 = empty_raw(''project_id'' := Str ''P1'', ''project_name'' := Str ''Alpha'',
     ''load_date'' := Str ''2024-01-15'', ''weight_tons'' := Str ''1.0'', ''hauler'' := Str ''Bob'')"

definition alpha3 :: raw where
  "alpha3 = empty_raw(''projectId'' := Str ''P1'', ''projectName'' := Str ''Alpha'',
     ''date'' := Str ''2024-01-16'', ''weightLbs'' := Num (Fin 4000))"

definition beta1 :: raw where
  "beta1 = empty_raw(''projectId'' := Num (Fin 7), ''projectName'' := Str ''Beta, Inc.'',
     ''date'' := Str ''2024-01-15'', ''weightTons'' := Num (Fin (3 / 1024)))"

definition demo_loads :: "raw list" where
  "demo_loads = [alpha1, alpha2, alpha3, beta1]"

definition demo_groups :: groups where
  "demo_groups =
     [(''P1'', \<lparr> group_projectId = Str ''P1'', group_projectName = Str ''Alpha'',
                 group_loads = [alpha1, alpha2, alpha3] \<rparr>),
      (''7'', \<lparr> group_projectId = Num (Fin 7), group_projectName = Str ''Beta, Inc.'',
                group_loads = [beta1] \<rparr>)]"

text \<open>The first project with the two loads of its first day only.\<close>

definition alpha_day :: groups where
  "alpha_day = [(''P1'', \<lparr> group_projectId = Str ''P1'', group_projectName = Str ''Alpha'',
                 group_loads = [alpha1, alpha2] \<rparr>)]"

text \<open>A record whose project identifier is the name of a property that every object inherits.\<close>

definition constructor_load :: raw where
  "constructor_load = empty_raw(''projectId'' := Str ''constructor'', ''status'' := Str ''confirmed'')"

section \<open>Notions used in the statements\<close>



text \<open>The key under which \<^verbatim>\<open>groupByProject\<close> files a record.\<close>

definition key_str :: "env \<Rightarrow> raw \<Rightarrow> string" where
  "key_str e l = toString_js e (group_key l)"

text \<open>What holds of the accumulator after the records \<open>pre\<close> have been filed.\<close>

definition filed :: "env \<Rightarrow> groups \<Rightarrow> raw list \<Rightarrow> bool" where
  "filed e acc pre \<longleftrightarrow>
     distinct (map fst acc)
     \<and> fst ` set acc = key_str e ` set pre
     \<and> (\<forall>k g. map_of acc k = Some g \<longrightarrow> group_loads g = filter (\<lambda>l. key_str e l = k) pre)
     \<and> mset (concat (map (\<lambda>p. group_loads (snd p)) acc)) = mset pre
     \<and> (\<forall>k \<in> fst ` set acc. k \<notin> set object_prototype_keys)"

section \<open>Properties of the load resolver\<close>

lemma confirmed_simps:
  "confirmed (confirmed_load i)" "\<not> confirmed (draft_load i)" "\<not> confirmed (pending_load i)"
  by (simp_all add: confirmed_def confirmed_load_def draft_load_def pending_load_def empty_raw_def)

text \<open>
  Claim C7. The local source is the store read for the scope of the call (all records when
  no project is given, the records of the project otherwise). Whenever it holds at least one
  record whose status is neither \<^verbatim>\<open>draft\<close> nor \<^verbatim>\<open>pending_upload\<close>, \<^verbatim>\<open>resolveLoads\<close>
  returns exactly its confirmed records, in order, and \<^verbatim>\<open>getLoadsFromAPI\<close> is not called,
  whatever \<^verbatim>\<open>navigator.onLine\<close> reports.
\<close>

theorem resolveLoads_prefers_local:
  assumes "local_store w = Records loads"
    and "\<exists>l \<in> set (scoped e pid loads). confirmed l"
  shows "resolveLoads e pid w = (False, Inr (filter confirmed (scoped e pid loads)))"
proof -
  from assms(2) have ne: "filter confirmed (scoped e pid loads) \<noteq> []"
    by (simp add: filter_empty_conv)
  have "local_loads e pid (local_store w) = filter confirmed (scoped e pid loads)"
    by (simp add: local_loads_def assms(1))
  with ne show ?thesis
    by (simp add: resolveLoads_def Let_def)
qed

theorem resolveLoads_prefers_local_witness:
  "resolveLoads utc_env Null mixed_sources
   = (False, Inr [confirmed_load 1, confirmed_load 3, confirmed_load 5])"
proof -
  have s: "local_store mixed_sources = Records mixed_store"
    by (simp add: mixed_sources_def)
  have c: "\<exists>l \<in> set (scoped utc_env Null mixed_store). confirmed l"
    by (simp add: scoped_def mixed_store_def confirmed_simps)
  have "filter confirmed (scoped utc_env Null mixed_store)
        = [confirmed_load 1, confirmed_load 3, confirmed_load 5]"
    by (simp add: scoped_def mixed_store_def confirmed_simps)
  with resolveLoads_prefers_local[OF s c] show ?thesis
    by simp
qed

text \<open>
  Claim C8. \<^verbatim>\<open>resolveLoads\<close> fails with the NoData error exactly when the confirmed local
  result is empty and the remote source, asked only when the network is up, returns
  \<^verbatim>\<open>null\<close> or an empty array. The remote source is asked exactly when the local result is
  empty and the network is up. A result that is returned is never empty, NoData is the only
  error, and a failure of the local source has the effect of an empty store.
\<close>

theorem resolveLoads_NoData_iff:
  "(snd (resolveLoads e pid w) = Inl NoData \<longleftrightarrow>
      local_loads e pid (local_store w) = []
      \<and> (onLine w \<longrightarrow> getLoadsFromAPI (remote w pid) = None \<or> getLoadsFromAPI (remote w pid) = Some []))
   \<and> (fst (resolveLoads e pid w) \<longleftrightarrow> local_loads e pid (local_store w) = [] \<and> onLine w)
   \<and> (\<forall>ls. snd (resolveLoads e pid w) = Inr ls \<longrightarrow> ls \<noteq> [])
   \<and> (\<forall>err. snd (resolveLoads e pid w) = Inl err \<longrightarrow> err = NoData)
   \<and> (\<forall>err. getLoadsFromDB e pid (local_store w) = Inl err \<longrightarrow>
         resolveLoads e pid w = resolveLoads e pid (w\<lparr>local_store := No_store\<rparr>))"
  by (auto simp: resolveLoads_def Let_def local_loads_def split: option.splits sum.splits)

theorem resolveLoads_NoData_iff_witness:
  "snd (resolveLoads utc_env Null offline_sources) = Inl NoData
   \<and> \<not> fst (resolveLoads utc_env Null offline_sources)"
proof -
  have "local_loads utc_env Null (local_store offline_sources) = []
        \<and> \<not> onLine offline_sources"
    by (simp add: offline_sources_def local_loads_def scoped_def confirmed_simps)
  with resolveLoads_NoData_iff[of utc_env Null offline_sources] show ?thesis
    by blast
qed

section \<open>Properties of the record normalizer\<close>




section \<open>Properties of the date formatter\<close>

lemma toQBDate_invalid: "date_parts e v = None \<Longrightarrow> toQBDate e v = ''NaN/NaN/NaN''"
  by (simp add: toQBDate_def)

text \<open>
  Claim C3 says that a date that cannot be read is formatted as the current date. The
  code does not do so: for every value whose \<^verbatim>\<open>Date\<close> is invalid \<^verbatim>\<open>toQBDate\<close> returns the
  text \<^verbatim>\<open>NaN/NaN/NaN\<close> (lemma \<open>toQBDate_invalid\<close>), whatever the clock says. Evaluated on a
  record whose date is \<^verbatim>\<open>'not-a-date'\<close>:
\<close>

theorem toQBDate_malformed:
  "toQBDate utc_env (date (normalizeLoad utc_env bad_date_load)) = ''NaN/NaN/NaN''"
  by (simp add: toQBDate_def utc_env_def iso_date_parts_def normalizeLoad_def or_js_def
      bad_date_load_def empty_raw_def is_digit_def)

section \<open>Properties of the class label\<close>






section \<open>Printing and reading decimal numbers\<close>

lemma digit_char_props:
  assumes "d < 10"
  shows "is_digit (digit_char d)" "digit_of (digit_char d) = d" "\<not> is_ws (digit_char d)"
    "digit_char d \<noteq> CHR ''-''" "digit_char d \<noteq> CHR ''+''" "digit_char d \<noteq> CHR ''I''"
proof -
  from assms have "d = 0 \<or> d = 1 \<or> d = 2 \<or> d = 3 \<or> d = 4 \<or> d = 5 \<or> d = 6
    \<or> d = 7 \<or> d = 8 \<or> d = 9"
    by arith
  then have "is_digit (digit_char d) \<and> digit_of (digit_char d) = d \<and> \<not> is_ws (digit_char d)
    \<and> digit_char d \<noteq> CHR ''-'' \<and> digit_char d \<noteq> CHR ''+'' \<and> digit_char d \<noteq> CHR ''I''"
    by (elim disjE) (simp_all add: digit_char_def is_digit_def digit_of_def is_ws_def)
  then show "is_digit (digit_char d)" "digit_of (digit_char d) = d" "\<not> is_ws (digit_char d)"
    "digit_char d \<noteq> CHR ''-''" "digit_char d \<noteq> CHR ''+''" "digit_char d \<noteq> CHR ''I''"
    by simp_all
qed



lemma nat_digits_all: "list_all is_digit (nat_digits n)"
proof (induction n rule: nat_digits.induct)
  case (1 n)
  show ?case
  proof (cases "n < 10")
    case True
    then show ?thesis by (subst nat_digits.simps) (simp add: digit_char_props)
  next
    case False
    then have "list_all is_digit (nat_digits (n div 10))" using 1 by simp
    moreover have "is_digit (digit_char (n mod 10))" by (simp add: digit_char_props)
    ultimately show ?thesis using False by (subst nat_digits.simps) simp
  qed
qed

lemma nat_digits_nonempty: "nat_digits n \<noteq> []"
  by (subst nat_digits.simps) simp

lemma digits_val_snoc: "digits_val (xs @ [c]) = 10 * digits_val xs + digit_of c"
  by (simp add: digits_val_def)

lemma digits_val_Nil: "digits_val [] = 0"
  by (simp add: digits_val_def)

lemma digits_val_append: "digits_val (xs @ ys) = digits_val xs * 10 ^ length ys + digits_val ys"
proof (induction ys rule: rev_induct)
  case Nil
  then show ?case by (simp add: digits_val_Nil)
next
  case (snoc y ys)
  have "digits_val (xs @ ys @ [y]) = 10 * digits_val (xs @ ys) + digit_of y"
    using digits_val_snoc[of "xs @ ys" y] by simp
  also have "\<dots> = 10 * (digits_val xs * 10 ^ length ys + digits_val ys) + digit_of y"
    by (simp only: snoc.IH)
  also have "\<dots> = digits_val xs * 10 ^ length (ys @ [y]) + digits_val (ys @ [y])"
    by (simp add: digits_val_snoc algebra_simps)
  finally show ?case .
qed

lemma digits_val_nat_digits: "digits_val (nat_digits n) = n"
proof (induction n rule: nat_digits.induct)
  case (1 n)
  show ?case
  proof (cases "n < 10")
    case True
    then show ?thesis
      by (subst nat_digits.simps) (simp add: digits_val_def digit_char_props)
  next
    case False
    then have ih: "digits_val (nat_digits (n div 10)) = n div 10" using 1 by simp
    have "digits_val (nat_digits n) = digits_val (nat_digits (n div 10) @ [digit_char (n mod 10)])"
      using False by (subst nat_digits.simps) simp
    also have "\<dots> = 10 * (n div 10) + n mod 10"
      by (simp add: digits_val_snoc ih digit_char_props)
    finally show ?thesis by simp
  qed
qed

lemma digits_val_zero_Cons: "digits_val (CHR ''0'' # xs) = digits_val xs"
  using digits_val_append[of "[CHR ''0'']" xs] by (simp add: digits_val_def digit_of_def)

lemma digits_val_zeros: "digits_val (replicate k CHR ''0'' @ xs) = digits_val xs"
  by (induction k) (simp_all add: digits_val_zero_Cons)



text \<open>The padded digits of \<open>fixed_str\<close>, split at the decimal point.\<close>

lemma fixed_str_split:
  assumes "0 < d"
  obtains a b where "fixed_str d n = a @ CHR ''.'' # b" "a \<noteq> []" "list_all is_digit a"
    "list_all is_digit b" "length b = d" "digits_val (a @ b) = n"
proof -
  define m' where "m' = replicate (d + 1 - length (nat_digits n)) CHR ''0'' @ nat_digits n"
  define a where "a = take (length m' - d) m'"
  define b where "b = drop (length m' - d) m'"
  have len: "d + 1 \<le> length m'" by (simp add: m'_def)
  have "list_all is_digit (replicate (d + 1 - length (nat_digits n)) CHR ''0'')"
    by (simp add: list_all_iff is_digit_def)
  then have dig: "list_all is_digit m'"
    unfolding m'_def using nat_digits_all[of n] by simp
  have val: "digits_val m' = n"
    by (simp add: m'_def digits_val_zeros digits_val_nat_digits)
  have ab: "a @ b = m'" by (simp add: a_def b_def)
  have 1: "fixed_str d n = a @ CHR ''.'' # b"
    using assms by (simp add: fixed_str_def Let_def m'_def a_def b_def)
  have "length a = length m' - d" by (simp add: a_def)
  with len have "0 < length a" by simp
  then have 2: "a \<noteq> []" by simp
  have 3: "list_all is_digit a" "list_all is_digit b"
    using dig ab by (metis list_all_append)+
  have 4: "length b = d" using len by (simp add: b_def)
  from 1 2 3 4 val ab show ?thesis by (intro that[of a b]) simp_all
qed







text \<open>Rules that evaluate the printing of concrete numbers.\<close>

lemma nat_digits_lt10: "n < 10 \<Longrightarrow> nat_digits n = [digit_char n]"
  by (simp add: nat_digits.simps)

lemma nat_digits_ge10: "10 \<le> n \<Longrightarrow> nat_digits n = nat_digits (n div 10) @ [digit_char (n mod 10)]"
  by (subst nat_digits.simps) simp

lemma floor_numeral_div: "\<lfloor>numeral a / numeral b :: rat\<rfloor> = numeral a div numeral b"
  using floor_divide_of_int_eq[of "numeral a" "numeral b", where ?'a = rat] by simp

lemmas eval_digits = nat_digits_lt10 nat_digits_ge10 digit_char_def int_str_def

lemmas eval_fixed = eval_digits fixed_str_def round_half_up_def Let_def floor_numeral_div

lemmas eval_parse = Number_str_def parseFloat_str_def parse_decimal_def parse_unsigned_def
  is_ws_def is_digit_def parse_exponent_def digits_val_def digit_of_def pow10_def

section \<open>Properties of the weight resolver\<close>






section \<open>Properties of the invoice amounts\<close>










lemma tons_alpha:
  "resolveWeightTons utc_env (normalizeLoad utc_env alpha1) = Fin (5 / 2)"
  "resolveWeightTons utc_env (normalizeLoad utc_env alpha2) = Fin 1"
  by (simp_all add: resolveWeightTons_def normalizeLoad_def or_js_def alpha1_def alpha2_def
      empty_raw_def eval_parse)




section \<open>Properties of the invoice numbering\<close>


lemma iif_batches_Cons_Inr:
  assumes "iif_batches e pid name qc n ((d, ls) # bs) = Inr (invs, n')"
  obtains spl invs0 where
    "spl_lines e d name qc (''DS-'' @ nat_digits n) ls = Inr spl"
    "iif_batches e pid name qc (n + 1) bs = Inr (invs0, n')"
    "invs = \<lparr> inv_projectId = pid, inv_date = d, inv_docNum = ''DS-'' @ nat_digits n,
            inv_lines = trns_line e d name qc (''DS-'' @ nat_digits n) ls # spl @ [''ENDTRNS''] \<rparr> # invs0"
proof (cases "spl_lines e d name qc (''DS-'' @ nat_digits n) ls")
  case (Inl err)
  with assms show ?thesis by (simp add: Let_def)
next
  case spl: (Inr spl)
  show ?thesis
  proof (cases "iif_batches e pid name qc (n + 1) bs")
    case (Inl err)
    with assms spl show ?thesis by (simp add: Let_def)
  next
    case (Inr r)
    obtain invs0 n0 where r: "r = (invs0, n0)" by (cases r)
    with assms spl Inr that show ?thesis by (simp add: Let_def)
  qed
qed


lemma iif_projects_Cons_Inr:
  assumes "iif_projects e n ((pid, g) # gs) = Inr (a, n')"
  obtains name invs n1 invs' where
    "group_projectName g = Str name"
    "iif_batches e pid name (qbClass_iif name) n (byDate e (map (normalizeLoad e) (group_loads g))) = Inr (invs, n1)"
    "iif_projects e n1 gs = Inr (invs', n')"
    "a = invs @ invs'"
proof -
  from assms obtain name where Str: "group_projectName g = Str name"
    by (cases "group_projectName g") simp_all
  show ?thesis
  proof (cases "iif_batches e pid name (qbClass_iif name) n (byDate e (map (normalizeLoad e) (group_loads g)))")
    case (Inl err)
    with assms Str show ?thesis by (simp add: Let_def)
  next
    case b: (Inr r)
    obtain invs n1 where r: "r = (invs, n1)" by (cases r)
    show ?thesis
    proof (cases "iif_projects e n1 gs")
      case (Inl err)
      with assms Str b r show ?thesis by (simp add: Let_def)
    next
      case (Inr r')
      obtain invs' n2 where "r' = (invs', n2)" by (cases r')
      with assms Str b r Inr that show ?thesis by (simp add: Let_def)
    qed
  qed
qed

lemma csv_projects_Cons:
  assumes "group_projectName g = Str name"
    and "csv_batches e pid name (qbClass_csv name) n (byDate e (map (normalizeLoad e) (group_loads g))) = (c, n1)"
  shows "csv_projects e n ((pid, g) # gs)
         = (case csv_projects e n1 gs of Inl err \<Rightarrow> Inl err | Inr (b', n') \<Rightarrow> Inr (c @ b', n'))"
  using assms by (simp add: Let_def)

lemma csv_projects_Cons_Inr:
  assumes "csv_projects e n ((pid, g) # gs) = Inr (b, n')"
  obtains name c n1 b' where
    "group_projectName g = Str name"
    "csv_batches e pid name (qbClass_csv name) n (byDate e (map (normalizeLoad e) (group_loads g))) = (c, n1)"
    "csv_projects e n1 gs = Inr (b', n')"
    "b = c @ b'"
proof -
  from assms obtain name where Str: "group_projectName g = Str name"
    by (cases "group_projectName g") simp_all
  obtain c n1 where c: "csv_batches e pid name (qbClass_csv name) n (byDate e (map (normalizeLoad e) (group_loads g))) = (c, n1)"
    by (cases "csv_batches e pid name (qbClass_csv name) n (byDate e (map (normalizeLoad e) (group_loads g)))")
  have eq: "(case csv_projects e n1 gs of Inl err \<Rightarrow> Inl err | Inr (b', n') \<Rightarrow> Inr (c @ b', n')) = Inr (b, n')"
    using assms unfolding csv_projects_Cons[OF Str c, of gs] .
  show ?thesis
  proof (cases "csv_projects e n1 gs")
    case (Inl err)
    with eq show ?thesis by simp
  next
    case (Inr r')
    obtain b' n2 where r': "r' = (b', n2)" by (cases r')
    with eq Inr have "b = c @ b'" "n2 = n'" by simp_all
    with Str c Inr r' show ?thesis by (intro that) simp_all
  qed
qed




text \<open>
  \<^verbatim>\<open>buildIIF\<close> completes when every project name is a string and every hash is a string or
  falsy: these are the values on which \<^verbatim>\<open>replace\<close> and \<^verbatim>\<open>substring\<close> exist.
\<close>

lemma iif_memo_ok:
  assumes "\<not> truthy (hash l) \<or> (\<exists>h. hash l = Str h)"
  shows "\<exists>m. iif_memo e l = Inr m"
  using assms by (auto simp: iif_memo_def)

lemma spl_lines_ok:
  assumes "\<forall>l \<in> set ls. \<not> truthy (hash l) \<or> (\<exists>h. hash l = Str h)"
  shows "\<exists>lines. spl_lines e d name qc doc ls = Inr lines"
  using assms
proof (induction ls)
  case Nil
  then show ?case by simp
next
  case (Cons l ls)
  then obtain m where m: "iif_memo e l = Inr m" using iif_memo_ok[of l e] by auto
  from Cons obtain rest where rest: "spl_lines e d name qc doc ls = Inr rest" by auto
  from m rest show ?case by (simp add: spl_line_def Let_def)
qed

lemma iif_batches_ok:
  assumes "\<forall>b \<in> set bs. \<forall>l \<in> set (snd b). \<not> truthy (hash l) \<or> (\<exists>h. hash l = Str h)"
  shows "\<exists>invs n'. iif_batches e pid name qc n bs = Inr (invs, n')"
  using assms
proof (induction bs arbitrary: n)
  case Nil
  then show ?case by simp
next
  case (Cons b bs)
  obtain d ls where b: "b = (d, ls)" by (cases b)
  from Cons.prems b have "\<forall>l \<in> set ls. \<not> truthy (hash l) \<or> (\<exists>h. hash l = Str h)" by simp
  from spl_lines_ok[OF this] obtain lines where
    lines: "spl_lines e d name qc (''DS-'' @ nat_digits n) ls = Inr lines" by blast
  from Cons.prems have "\<forall>b \<in> set bs. \<forall>l \<in> set (snd b). \<not> truthy (hash l) \<or> (\<exists>h. hash l = Str h)"
    by simp
  from Cons.IH[OF this, of "n + 1"] obtain invs n' where
    r: "iif_batches e pid name qc (n + 1) bs = Inr (invs, n')" by blast
  from lines r b show ?case by (simp add: Let_def)
qed

lemma byDate_push_loads:
  "(\<Union>b \<in> set (byDate_push k l acc). set (snd b)) = insert l (\<Union>b \<in> set acc. set (snd b))"
proof (induction acc)
  case Nil
  then show ?case by simp
next
  case (Cons p acc)
  obtain k' ls where p: "p = (k', ls)" by (cases p)
  show ?case
  proof (cases "k = k'")
    case True
    with p show ?thesis by auto
  next
    case False
    with p have "(\<Union>b \<in> set (byDate_push k l (p # acc)). set (snd b))
        = set ls \<union> (\<Union>b \<in> set (byDate_push k l acc). set (snd b))"
      by simp
    also have "\<dots> = set ls \<union> insert l (\<Union>b \<in> set acc. set (snd b))"
      by (simp only: Cons.IH)
    finally show ?thesis using p by auto
  qed
qed

lemma byDate_from_loads:
  "(\<Union>b \<in> set (foldl (\<lambda>acc l. byDate_push (toQBDate e (date l)) l acc) acc ls). set (snd b))
   = (\<Union>b \<in> set acc. set (snd b)) \<union> set ls"
proof (induction ls arbitrary: acc)
  case Nil
  then show ?case by simp
next
  case (Cons l ls)
  show ?case
    by (simp only: foldl_Cons Cons.IH byDate_push_loads) auto
qed

lemma byDate_loads: "(\<Union>b \<in> set (byDate e ls). set (snd b)) = set ls"
  using byDate_from_loads[of e "[]" ls] by (simp add: byDate_def)

lemma iif_projects_ok:
  assumes "\<forall>p \<in> set gs. (\<exists>name. group_projectName (snd p) = Str name)
            \<and> (\<forall>r \<in> set (group_loads (snd p)).
                  \<not> truthy (hash (normalizeLoad e r)) \<or> (\<exists>h. hash (normalizeLoad e r) = Str h))"
  shows "\<exists>a n'. iif_projects e n gs = Inr (a, n')"
  using assms
proof (induction gs arbitrary: n)
  case Nil
  then show ?case by simp
next
  case (Cons p gs)
  obtain pid g where p: "p = (pid, g)" by (cases p)
  from Cons.prems p obtain name where name: "group_projectName g = Str name" by auto
  let ?bs = "byDate e (map (normalizeLoad e) (group_loads g))"
  have "\<forall>b \<in> set ?bs. \<forall>l \<in> set (snd b). \<not> truthy (hash l) \<or> (\<exists>h. hash l = Str h)"
  proof (intro ballI)
    fix b l assume "b \<in> set ?bs" "l \<in> set (snd b)"
    then have "l \<in> (\<Union>b \<in> set ?bs. set (snd b))" by blast
    then have "l \<in> set (map (normalizeLoad e) (group_loads g))" by (simp only: byDate_loads)
    then obtain r where "r \<in> set (group_loads g)" "l = normalizeLoad e r" by auto
    with Cons.prems p show "\<not> truthy (hash l) \<or> (\<exists>h. hash l = Str h)" by auto
  qed
  from iif_batches_ok[OF this] obtain invs n1 where
    b: "iif_batches e pid name (qbClass_iif name) n ?bs = Inr (invs, n1)" by blast
  from Cons.prems have "\<forall>p \<in> set gs. (\<exists>name. group_projectName (snd p) = Str name)
            \<and> (\<forall>r \<in> set (group_loads (snd p)).
                  \<not> truthy (hash (normalizeLoad e r)) \<or> (\<exists>h. hash (normalizeLoad e r) = Str h))"
    by simp
  from Cons.IH[OF this, of n1] obtain a n' where r: "iif_projects e n1 gs = Inr (a, n')" by blast
  from name b r p show ?case by (simp add: Let_def)
qed

text \<open>The two projects of the example: their entries, dates and batches.\<close>

lemma set_object_entries: "set (object_entries obj) = set obj"
  by (auto simp: object_entries_def)

lemma demo_entries:
  "object_entries demo_groups =
     [(''7'', \<lparr> group_projectId = Num (Fin 7), group_projectName = Str ''Beta, Inc.'',
                group_loads = [beta1] \<rparr>),
      (''P1'', \<lparr> group_projectId = Str ''P1'', group_projectName = Str ''Alpha'',
                 group_loads = [alpha1, alpha2, alpha3] \<rparr>)]"
  by (simp add: object_entries_def demo_groups_def is_array_index_def is_digit_def digits_val_def
      digit_of_def)

lemma demo_hashes:
  "hash (normalizeLoad utc_env alpha1) = Str ''abcdef0123456789''"
  "hash (normalizeLoad utc_env alpha2) = Str ''''"
  "hash (normalizeLoad utc_env alpha3) = Str ''''"
  "hash (normalizeLoad utc_env beta1) = Str ''''"
  by (simp_all add: normalizeLoad_def or_js_def alpha1_def alpha2_def alpha3_def beta1_def empty_raw_def)

lemma iso_dates:
  "toQBDate utc_env (Str ''2024-01-15'') = ''01/15/2024''"
  "toQBDate utc_env (Str ''2024-01-16'') = ''01/16/2024''"
  by (simp_all add: toQBDate_def utc_env_def iso_date_parts_def is_digit_def digits_val_def digit_of_def
      padStart2_def eval_digits)

lemma demo_dates:
  "toQBDate utc_env (date (normalizeLoad utc_env alpha1)) = ''01/15/2024''"
  "toQBDate utc_env (date (normalizeLoad utc_env alpha2)) = ''01/15/2024''"
  "toQBDate utc_env (date (normalizeLoad utc_env alpha3)) = ''01/16/2024''"
  "toQBDate utc_env (date (normalizeLoad utc_env beta1)) = ''01/15/2024''"
proof -
  have "date (normalizeLoad utc_env alpha1) = Str ''2024-01-15''"
    "date (normalizeLoad utc_env alpha2) = Str ''2024-01-15''"
    "date (normalizeLoad utc_env alpha3) = Str ''2024-01-16''"
    "date (normalizeLoad utc_env beta1) = Str ''2024-01-15''"
    by (simp_all add: normalizeLoad_def or_js_def alpha1_def alpha2_def alpha3_def beta1_def empty_raw_def)
  then show "toQBDate utc_env (date (normalizeLoad utc_env alpha1)) = ''01/15/2024''"
    "toQBDate utc_env (date (normalizeLoad utc_env alpha2)) = ''01/15/2024''"
    "toQBDate utc_env (date (normalizeLoad utc_env alpha3)) = ''01/16/2024''"
    "toQBDate utc_env (date (normalizeLoad utc_env beta1)) = ''01/15/2024''"
    by (simp_all only: iso_dates)
qed

lemma demo_batches:
  "byDate utc_env [normalizeLoad utc_env alpha1, normalizeLoad utc_env alpha2, normalizeLoad utc_env alpha3]
     = [(''01/15/2024'', [normalizeLoad utc_env alpha1, normalizeLoad utc_env alpha2]),
        (''01/16/2024'', [normalizeLoad utc_env alpha3])]"
  "byDate utc_env [normalizeLoad utc_env beta1]
     = [(''01/15/2024'', [normalizeLoad utc_env beta1])]"
  by (simp_all add: byDate_def demo_dates)

lemma demo_csv_labels:
  "\<exists>b. buildCSV_invoices utc_env demo_groups = Inr b
     \<and> map (\<lambda>i. (inv_projectId i, inv_date i, inv_docNum i)) b
       = [(''7'', ''01/15/2024'', ''DS-1000''), (''P1'', ''01/15/2024'', ''DS-1001''),
          (''P1'', ''01/16/2024'', ''DS-1002'')]"
  by (simp add: buildCSV_invoices_def demo_entries demo_batches Let_def eval_digits)


section \<open>Properties of the documents\<close>

lemma join_js_snoc: "xs \<noteq> [] \<Longrightarrow> join_js sep (xs @ [x]) = join_js sep xs @ sep @ x"
proof (induction sep xs rule: join_js.induct)
  case (1 sep)
  then show ?case by simp
next
  case (2 sep y)
  then show ?case by simp
next
  case (3 sep y z zs)
  then show ?case by simp
qed

lemma join_js_last: "ls \<noteq> [] \<Longrightarrow> \<exists>pre. join_js sep ls = pre @ last ls"
proof (induction sep ls rule: join_js.induct)
  case (1 sep)
  then show ?case by simp
next
  case (2 sep y)
  then show ?case by simp
next
  case (3 sep y z zs)
  then obtain pre where "join_js sep (z # zs) = pre @ last (z # zs)" by auto
  then have "join_js sep (y # z # zs) = (y @ sep @ pre) @ last (y # z # zs)" by simp
  then show ?case by blast
qed

lemma suffix_last_join: "ls \<noteq> [] \<Longrightarrow> suffix (last ls) (join_js sep ls)"
  using join_js_last[of ls sep] by (auto simp: suffix_def)

lemma suffix_last_char:
  assumes "suffix t s" and "t \<noteq> []" and "last t \<noteq> LF"
  shows "\<not> suffix CRLF s"
proof
  assume "suffix CRLF s"
  then obtain p where p: "s = p @ CRLF" by (auto simp: suffix_def)
  from assms(1) obtain q where q: "s = q @ t" by (auto simp: suffix_def)
  from p have "last s = LF" by (simp add: CRLF_def)
  moreover from q assms(2) have "last s = last t" by simp
  ultimately show False using assms(3) by simp
qed

lemma iif_batches_end:
  "iif_batches e pid name qc n bs = Inr (invs, n') \<Longrightarrow>
     \<forall>i \<in> set invs. inv_lines i \<noteq> [] \<and> last (inv_lines i) = ''ENDTRNS''"
proof (induction bs arbitrary: n invs n')
  case Nil
  then show ?case by simp
next
  case (Cons b bs)
  obtain d ls where b: "b = (d, ls)" by (cases b)
  from Cons.prems b have "iif_batches e pid name qc n ((d, ls) # bs) = Inr (invs, n')" by simp
  then obtain spl invs0 where
    r: "iif_batches e pid name qc (n + 1) bs = Inr (invs0, n')"
    and invs: "invs = \<lparr> inv_projectId = pid, inv_date = d, inv_docNum = ''DS-'' @ nat_digits n,
            inv_lines = trns_line e d name qc (''DS-'' @ nat_digits n) ls # spl @ [''ENDTRNS''] \<rparr> # invs0"
    by (rule iif_batches_Cons_Inr)
  from Cons.IH[OF r] invs show ?case by simp
qed

lemma iif_projects_end:
  "iif_projects e n gs = Inr (a, n') \<Longrightarrow>
     \<forall>i \<in> set a. inv_lines i \<noteq> [] \<and> last (inv_lines i) = ''ENDTRNS''"
proof (induction gs arbitrary: n a n')
  case Nil
  then show ?case by simp
next
  case (Cons pg gs)
  obtain pid g where pg: "pg = (pid, g)" by (cases pg)
  from Cons.prems pg have "iif_projects e n ((pid, g) # gs) = Inr (a, n')" by simp
  then obtain name invs n1 invs' where
    b1: "iif_batches e pid name (qbClass_iif name) n (byDate e (map (normalizeLoad e) (group_loads g))) = Inr (invs, n1)"
    and r: "iif_projects e n1 gs = Inr (invs', n')"
    and a: "a = invs @ invs'"
    by (rule iif_projects_Cons_Inr)
  from iif_batches_end[OF b1] Cons.IH[OF r] a show ?case by auto
qed

lemma last_concat_lines:
  assumes "\<forall>i \<in> set invs. inv_lines i \<noteq> [] \<and> last (inv_lines i) = x" and "invs \<noteq> []"
  shows "concat (map inv_lines invs) \<noteq> [] \<and> last (concat (map inv_lines invs)) = x"
  using assms
proof (induction invs)
  case Nil
  then show ?case by simp
next
  case (Cons i invs)
  show ?case
  proof (cases "invs = []")
    case True
    with Cons.prems show ?thesis by simp
  next
    case False
    with Cons have "concat (map inv_lines invs) \<noteq> [] \<and> last (concat (map inv_lines invs)) = x"
      by simp
    then show ?thesis by simp
  qed
qed

lemma buildIIF_end:
  assumes "buildIIF e g = Inr doc"
  shows "\<exists>lines. buildIIF_lines e g = Inr lines \<and> lines \<noteq> [] \<and> doc = join_js CRLF lines
           \<and> (last lines = ''ENDTRNS'' \<or> last lines = ''!ENDTRNS'')"
    and "suffix ''ENDTRNS'' doc" and "\<not> suffix CRLF doc"
proof -
  from assms obtain lines where l: "buildIIF_lines e g = Inr lines" and d: "doc = join_js CRLF lines"
    by (auto simp: buildIIF_def split: sum.splits)
  from l obtain invs where i: "buildIIF_invoices e g = Inr invs"
    and ls: "lines = iif_header @ concat (map inv_lines invs)"
    by (auto simp: buildIIF_lines_def split: sum.splits)
  from i obtain n' where "iif_projects e 1000 (object_entries g) = Inr (invs, n')"
    by (auto simp: buildIIF_invoices_def split: sum.splits)
  from iif_projects_end[OF this]
  have en: "\<forall>i \<in> set invs. inv_lines i \<noteq> [] \<and> last (inv_lines i) = ''ENDTRNS''" .
  have ne: "lines \<noteq> []" by (simp add: ls iif_header_def)
  have la: "last lines = ''ENDTRNS'' \<or> last lines = ''!ENDTRNS''"
  proof (cases "invs = []")
    case True
    then show ?thesis by (simp add: ls iif_header_def)
  next
    case False
    from last_concat_lines[OF en False] show ?thesis by (simp add: ls)
  qed
  from l ne d la show "\<exists>lines. buildIIF_lines e g = Inr lines \<and> lines \<noteq> [] \<and> doc = join_js CRLF lines
           \<and> (last lines = ''ENDTRNS'' \<or> last lines = ''!ENDTRNS'')"
    by blast
  have s: "suffix (last lines) doc" unfolding d by (rule suffix_last_join[OF ne])
  from la show e: "suffix ''ENDTRNS'' doc"
  proof
    assume "last lines = ''ENDTRNS''"
    with s show ?thesis by simp
  next
    assume "last lines = ''!ENDTRNS''"
    with s have "suffix ''!ENDTRNS'' doc" by simp
    moreover have "suffix ''ENDTRNS'' ''!ENDTRNS''" by (simp add: suffix_Cons)
    ultimately show ?thesis by (rule suffix_order.trans[rotated])
  qed
  show "\<not> suffix CRLF doc"
    by (rule suffix_last_char[OF e]) (simp_all add: LF_def)
qed

lemma is_digit_not_LF: "is_digit c \<Longrightarrow> c \<noteq> LF"
  by (auto simp: is_digit_def LF_def)

lemma fixed_str_last: "fixed_str d n \<noteq> [] \<and> last (fixed_str d n) \<noteq> LF"
proof (cases "d = 0")
  case True
  have "last (nat_digits n) \<in> set (nat_digits n)"
    using nat_digits_nonempty by simp
  then have "is_digit (last (nat_digits n))"
    using nat_digits_all[of n] by (simp add: list_all_iff)
  with True show ?thesis
    by (simp add: fixed_str_def Let_def nat_digits_nonempty is_digit_not_LF)
next
  case False
  then have "0 < d" by simp
  from fixed_str_split[OF this, of n] obtain a b where
    s: "fixed_str d n = a @ CHR ''.'' # b" and b: "list_all is_digit b" "length b = d"
    by metis
  from b \<open>0 < d\<close> have ne: "b \<noteq> []" by auto
  then have "last b \<in> set b" by simp
  with b have "is_digit (last b)" by (simp add: list_all_iff)
  with s ne show ?thesis by (simp add: is_digit_not_LF)
qed

lemma last_not_LF:
  assumes "\<not> suffix [LF] s"
  shows "s = [] \<or> last s \<noteq> LF"
proof (cases "s = []")
  case False
  then have "s = butlast s @ [last s]" by simp
  then have "suffix [last s] s" unfolding suffix_def by blast
  with assms show ?thesis by auto
qed simp

lemma toFixed_last:
  assumes "\<forall>r. \<not> suffix [LF] (num_str e r)"
  shows "toFixed e x d = [] \<or> last (toFixed e x d) \<noteq> LF"
proof (cases x)
  case (Fin r)
  define body where
    "body = (if 10 ^ 21 \<le> \<bar>r\<bar> then num_str e \<bar>r\<bar> else fixed_str d (round_half_up \<bar>r\<bar> d))"
  define sgn where "sgn = (if r < 0 then [CHR ''-''] else [])"
  have t: "toFixed e x d = sgn @ body" using Fin by (simp add: body_def sgn_def)
  have body: "body = [] \<or> last body \<noteq> LF"
  proof (cases "10 ^ 21 \<le> \<bar>r\<bar>")
    case True
    with last_not_LF[of "num_str e \<bar>r\<bar>"] assms show ?thesis by (simp add: body_def)
  next
    case False
    with fixed_str_last[of d "round_half_up \<bar>r\<bar> d"] show ?thesis by (simp add: body_def)
  qed
  show ?thesis
  proof (cases "body = []")
    case True
    then have "toFixed e x d = sgn" using t by simp
    then show ?thesis by (auto simp: sgn_def LF_def)
  next
    case False
    then have "last (toFixed e x d) = last body" using t by simp
    with body False show ?thesis by simp
  qed
qed (simp_all add: LF_def)

lemma csv_row_last:
  assumes "\<forall>r. \<not> suffix [LF] (num_str e r)"
  shows "csv_row e d name qc doc l \<noteq> [] \<and> last (csv_row e d name qc doc l) \<noteq> LF"
proof -
  define F where "F = toFixed e (if truthy (Num (carbonSaved l)) then carbonSaved l else Fin 0) 4"
  define fs where "fs =
     [safe e (Str doc), safe e (Str name), safe e (Str d), safe e (Str (due_date e d)),
      safe e (Str TERMS), safe e (Str ''LEED Compliance Documentation''),
      safe e (Str (csv_description e l)), toFixed e (resolveWeightTons e l) 4,
      toFixed e (Fin RATE_PER_TON) 2,
      toFixed e (num_scale (resolveWeightTons e l) RATE_PER_TON) 2, safe e (Str qc),
      safe e (Str (''DivertScan Export | '' @ today_locale e)),
      safe e (or_js (hash l) (Str [])), safe e (ticket_or_id l), safe e (materialType l),
      safe e (hauler l), safe e (truckId l)]"
  have row: "csv_row e d name qc doc l = join_js '','' (fs @ [F])"
    by (simp add: csv_row_def Let_def fs_def F_def)
  have "fs \<noteq> []" by (simp add: fs_def)
  from row join_js_snoc[OF this, of "'',''" F]
  have eq: "csv_row e d name qc doc l = join_js '','' fs @ '','' @ F"
    by (rule trans)
  from toFixed_last[OF assms, of "if truthy (Num (carbonSaved l)) then carbonSaved l else Fin 0" 4]
  have "F = [] \<or> last F \<noteq> LF" by (simp only: F_def)
  then show ?thesis
  proof
    assume "F = []"
    with eq show ?thesis by (simp add: LF_def)
  next
    assume "last F \<noteq> LF"
    with eq show ?thesis by (cases "F = []") (simp_all add: LF_def)
  qed
qed

lemma csv_batches_rows:
  "csv_batches e pid name qc n bs = (invs, n') \<Longrightarrow>
     \<forall>i \<in> set invs. \<forall>row \<in> set (inv_lines i). \<exists>d doc l. row = csv_row e d name qc doc l"
proof (induction bs arbitrary: n invs n')
  case Nil
  then show ?case by simp
next
  case (Cons b bs)
  obtain d ls where b: "b = (d, ls)" by (cases b)
  obtain invs0 n0 where r: "csv_batches e pid name qc (n + 1) bs = (invs0, n0)"
    by (cases "csv_batches e pid name qc (n + 1) bs")
  from Cons.prems b r have invs: "invs = \<lparr> inv_projectId = pid, inv_date = d, inv_docNum = ''DS-'' @ nat_digits n,
            inv_lines = map (csv_row e d name qc (''DS-'' @ nat_digits n)) ls \<rparr> # invs0"
    by (simp add: Let_def)
  from Cons.IH[OF r] invs show ?case by auto
qed

lemma csv_projects_rows:
  "csv_projects e n gs = Inr (b, n') \<Longrightarrow>
     \<forall>i \<in> set b. \<forall>row \<in> set (inv_lines i). \<exists>d name qc doc l. row = csv_row e d name qc doc l"
proof (induction gs arbitrary: n b n')
  case Nil
  then show ?case by simp
next
  case (Cons pg gs)
  obtain pid g where pg: "pg = (pid, g)" by (cases pg)
  from Cons.prems pg have "csv_projects e n ((pid, g) # gs) = Inr (b, n')" by simp
  then obtain name c n1 b' where
    c: "csv_batches e pid name (qbClass_csv name) n (byDate e (map (normalizeLoad e) (group_loads g))) = (c, n1)"
    and r: "csv_projects e n1 gs = Inr (b', n')"
    and b: "b = c @ b'"
    by (rule csv_projects_Cons_Inr)
  from csv_batches_rows[OF c] have "\<forall>i \<in> set c. \<forall>row \<in> set (inv_lines i).
      \<exists>d name qc doc l. row = csv_row e d name qc doc l" by blast
  with Cons.IH[OF r] b show ?case by auto
qed

lemma buildCSV_end:
  assumes "buildCSV e g = Inr doc"
  shows "\<exists>rows. buildCSV_rows e g = Inr rows \<and> rows \<noteq> [] \<and> doc = join_js CRLF rows
           \<and> suffix (last rows) doc"
    and "(\<forall>r. \<not> suffix [LF] (num_str e r)) \<Longrightarrow> \<not> suffix CRLF doc"
proof -
  from assms obtain rows where l: "buildCSV_rows e g = Inr rows" and d: "doc = join_js CRLF rows"
    by (auto simp: buildCSV_def split: sum.splits)
  from l obtain invs where i: "buildCSV_invoices e g = Inr invs"
    and rs: "rows = csv_header # concat (map inv_lines invs)"
    by (auto simp: buildCSV_rows_def split: sum.splits)
  have ne: "rows \<noteq> []" by (simp add: rs)
  have s: "suffix (last rows) doc" unfolding d by (rule suffix_last_join[OF ne])
  from l ne d s show "\<exists>rows. buildCSV_rows e g = Inr rows \<and> rows \<noteq> [] \<and> doc = join_js CRLF rows
           \<and> suffix (last rows) doc"
    by blast
  show "\<not> suffix CRLF doc" if env: "\<forall>r. \<not> suffix [LF] (num_str e r)"
  proof -
    from i obtain n' where "csv_projects e 1000 (object_entries g) = Inr (invs, n')"
      by (auto simp: buildCSV_invoices_def split: sum.splits)
    from csv_projects_rows[OF this]
    have rows: "\<forall>i \<in> set invs. \<forall>row \<in> set (inv_lines i).
        \<exists>d name qc doc l. row = csv_row e d name qc doc l" .
    have "\<forall>row \<in> set rows. row = csv_header \<or> (\<exists>d name qc doc l. row = csv_row e d name qc doc l)"
      using rows by (auto simp: rs)
    moreover have "last rows \<in> set rows" using ne by (rule last_in_set)
    ultimately have "last rows = csv_header \<or> (\<exists>d name qc doc l. last rows = csv_row e d name qc doc l)"
      by blast
    then have "last rows \<noteq> [] \<and> last (last rows) \<noteq> LF"
    proof
      assume "last rows = csv_header"
      then show ?thesis by (simp add: csv_header_def LF_def)
    next
      assume "\<exists>d name qc doc l. last rows = csv_row e d name qc doc l"
      then obtain d name qc doc l where "last rows = csv_row e d name qc doc l" by blast
      with csv_row_last[OF env, of d name qc doc l] show ?thesis by simp
    qed
    with s show ?thesis using suffix_last_char by blast
  qed
qed

text \<open>Both serializers complete on the two projects of the example.\<close>

lemma demo_iif_ok: "\<exists>doc. buildIIF utc_env demo_groups = Inr doc"
proof -
  have "\<forall>p \<in> set (object_entries demo_groups). (\<exists>name. group_projectName (snd p) = Str name)
            \<and> (\<forall>r \<in> set (group_loads (snd p)).
                  \<not> truthy (hash (normalizeLoad utc_env r))
                  \<or> (\<exists>h. hash (normalizeLoad utc_env r) = Str h))"
    by (simp add: set_object_entries demo_groups_def demo_hashes)
  from iif_projects_ok[OF this, of 1000] show ?thesis
    by (auto simp: buildIIF_def buildIIF_lines_def buildIIF_invoices_def)
qed

lemma demo_csv_ok: "\<exists>doc. buildCSV utc_env demo_groups = Inr doc"
  using demo_csv_labels by (auto simp: buildCSV_def buildCSV_rows_def)

lemma utc_env_num_str: "\<forall>r. \<not> suffix [LF] (num_str utc_env r)"
  by (simp add: utc_env_def LF_def suffix_Cons)

text \<open>
  Claim C4, amended. Whenever a serializer completes, its document is the sequence of its
  records joined by CRLF: the separator stands between consecutive records and nothing
  follows the final record. The Format A document ends with the text \<^verbatim>\<open>ENDTRNS\<close> and the
  Format B document with its last row; neither ends with CRLF (for Format B in every
  runtime whose printing of a number does not end in a line feed).
\<close>

theorem documents_joined_by_CRLF:
  "(\<forall>doc. buildIIF e g = Inr doc \<longrightarrow>
      (\<exists>lines. buildIIF_lines e g = Inr lines \<and> lines \<noteq> [] \<and> doc = join_js CRLF lines
         \<and> (last lines = ''ENDTRNS'' \<or> last lines = ''!ENDTRNS''))
      \<and> suffix ''ENDTRNS'' doc \<and> \<not> suffix CRLF doc)
   \<and> (\<forall>doc. buildCSV e g = Inr doc \<longrightarrow>
      (\<exists>rows. buildCSV_rows e g = Inr rows \<and> rows \<noteq> [] \<and> doc = join_js CRLF rows
         \<and> suffix (last rows) doc)
      \<and> ((\<forall>r. \<not> suffix [LF] (num_str e r)) \<longrightarrow> \<not> suffix CRLF doc))"
  using buildIIF_end[of e g] buildCSV_end[of e g] by blast

theorem documents_joined_by_CRLF_witness:
  "(case buildIIF utc_env demo_groups of
      Inl err \<Rightarrow> False
    | Inr doc \<Rightarrow> suffix ''ENDTRNS'' doc \<and> \<not> suffix CRLF doc)
   \<and> (case buildCSV utc_env demo_groups of
      Inl err \<Rightarrow> False
    | Inr doc \<Rightarrow> \<not> suffix CRLF doc)"
proof -
  from demo_iif_ok obtain a where a: "buildIIF utc_env demo_groups = Inr a" by blast
  from demo_csv_ok obtain b where b: "buildCSV utc_env demo_groups = Inr b" by blast
  from documents_joined_by_CRLF[of utc_env demo_groups] a b utc_env_num_str
  have "suffix ''ENDTRNS'' a \<and> \<not> suffix CRLF a \<and> \<not> suffix CRLF b"
    by blast
  with a b show ?thesis by simp
qed

text \<open>
  The claim as stated fails on the two projects of the example: each document ends with
  the last character of its final record, which is not a line feed.
\<close>

theorem no_final_CRLF_counterexample:
  "(case buildIIF utc_env demo_groups of
      Inl err \<Rightarrow> False
    | Inr doc \<Rightarrow> doc \<noteq> [] \<and> last doc = CHR ''S'' \<and> \<not> suffix CRLF doc)
   \<and> (case buildCSV utc_env demo_groups of
      Inl err \<Rightarrow> False
    | Inr doc \<Rightarrow> \<not> suffix CRLF doc)"
proof -
  from demo_iif_ok obtain a where a: "buildIIF utc_env demo_groups = Inr a" by blast
  from demo_csv_ok obtain b where b: "buildCSV utc_env demo_groups = Inr b" by blast
  from buildIIF_end(2)[OF a] obtain p where "a = p @ ''ENDTRNS''"
    by (auto simp: suffix_def)
  then have a': "a \<noteq> [] \<and> last a = CHR ''S''" by simp
  have nb: "\<not> suffix CRLF b" by (rule buildCSV_end(2)[OF b utc_env_num_str])
  from a a' b nb buildIIF_end(3)[OF a] show ?thesis by simp
qed

section \<open>Properties of the project grouping\<close>

lemma normalizeLoad_projectId: "projectId (normalizeLoad e l) = group_key l"
  by (simp add: normalizeLoad_def group_key_def)

lemma map_fst_push_load: "map fst (push_load k l acc) = map fst acc"
  by (induction acc) auto

lemma map_of_push_load:
  "map_of acc k = Some g \<Longrightarrow>
     map_of (push_load k l acc) = (map_of acc)(k \<mapsto> g\<lparr>group_loads := group_loads g @ [l]\<rparr>)"
proof (induction acc)
  case Nil
  then show ?case by simp
next
  case (Cons p acc)
  obtain k' g' where p: "p = (k', g')" by (cases p)
  show ?case
  proof (cases "k = k'")
    case True
    with Cons.prems p show ?thesis by auto
  next
    case False
    with Cons p show ?thesis by auto
  qed
qed

lemma mset_push_load:
  "map_of acc k = Some g \<Longrightarrow>
     mset (concat (map (\<lambda>p. group_loads (snd p)) (push_load k l acc)))
     = add_mset l (mset (concat (map (\<lambda>p. group_loads (snd p)) acc)))"
proof (induction acc)
  case Nil
  then show ?case by simp
next
  case (Cons p acc)
  obtain k' g' where p: "p = (k', g')" by (cases p)
  show ?case
  proof (cases "k = k'")
    case True
    with p show ?thesis by simp
  next
    case False
    with Cons p show ?thesis by simp
  qed
qed

lemma filed_empty: "filed e [] []"
  by (simp add: filed_def)

lemma filed_step:
  assumes f: "filed e acc pre" and s: "groupByProject_step e acc l = Inr acc'"
  shows "filed e acc' (pre @ [l])"
proof -
  let ?k = "key_str e l"
  from f have d: "distinct (map fst acc)"
    and keys: "fst ` set acc = key_str e ` set pre"
    and loads: "\<And>k g. map_of acc k = Some g \<Longrightarrow> group_loads g = filter (\<lambda>l. key_str e l = k) pre"
    and ms: "mset (concat (map (\<lambda>p. group_loads (snd p)) acc)) = mset pre"
    and np: "\<And>k. k \<in> fst ` set acc \<Longrightarrow> k \<notin> set object_prototype_keys"
    unfolding filed_def by blast+
  show ?thesis
  proof (cases "map_of acc ?k")
    case (Some g)
    with s have acc': "acc' = push_load ?k l acc"
      by (simp add: groupByProject_step_def key_str_def Let_def)
    have m: "map_of acc' = (map_of acc)(?k \<mapsto> g\<lparr>group_loads := group_loads g @ [l]\<rparr>)"
      unfolding acc' by (rule map_of_push_load[OF Some])
    have fs: "map fst acc' = map fst acc" unfolding acc' by (rule map_fst_push_load)
    then have fset: "fst ` set acc' = fst ` set acc" by (metis set_map)
    from Some have kin: "?k \<in> fst ` set acc" by (metis map_of_SomeD fst_conv image_eqI)
    have 1: "distinct (map fst acc')" using d fs by simp
    have 2: "fst ` set acc' = key_str e ` set (pre @ [l])"
      using fset keys kin by auto
    have 3: "group_loads g' = filter (\<lambda>l. key_str e l = k) (pre @ [l])"
      if "map_of acc' k = Some g'" for k g'
    proof (cases "k = ?k")
      case True
      with that m have "g' = g\<lparr>group_loads := group_loads g @ [l]\<rparr>" by simp
      with loads[OF Some] True show ?thesis by simp
    next
      case False
      with that m have "map_of acc k = Some g'" by simp
      from loads[OF this] False show ?thesis by auto
    qed
    have 4: "mset (concat (map (\<lambda>p. group_loads (snd p)) acc')) = mset (pre @ [l])"
      unfolding acc' by (simp add: mset_push_load[OF Some] ms)
    have 5: "\<forall>k \<in> fst ` set acc'. k \<notin> set object_prototype_keys"
      using np fset by simp
    from 1 2 3 4 5 show ?thesis unfolding filed_def by blast
  next
    case None
    define new where "new = \<lparr> group_projectId = group_key l,
        group_projectName = or_js (or_js (l ''projectName'') (l ''project_name'')) (group_key l),
        group_loads = [l] \<rparr>"
    from s None have notp: "?k \<notin> set object_prototype_keys" and acc': "acc' = acc @ [(?k, new)]"
      by (auto simp: groupByProject_step_def key_str_def Let_def new_def split: if_splits)
    from None have fresh: "?k \<notin> fst ` set acc" by (simp add: map_of_eq_None_iff)
    have nokey: "\<forall>x \<in> set pre. key_str e x \<noteq> ?k"
    proof
      fix x assume "x \<in> set pre"
      then have "key_str e x \<in> fst ` set acc" unfolding keys by (rule imageI)
      with fresh show "key_str e x \<noteq> ?k" by metis
    qed
    have 1: "distinct (map fst acc')" using d fresh by (simp add: acc')
    have 2: "fst ` set acc' = key_str e ` set (pre @ [l])"
      using keys by (auto simp: acc')
    have 3: "group_loads g' = filter (\<lambda>l. key_str e l = k) (pre @ [l])"
      if h: "map_of acc' k = Some g'" for k g'
    proof (cases "map_of acc k")
      case (Some g0)
      then have "map_of acc' k = Some g0" by (simp add: acc')
      with h have "g' = g0" by simp
      moreover from Some have "k \<in> fst ` set acc" by (metis map_of_SomeD fst_conv image_eqI)
      with fresh have "k \<noteq> ?k" by metis
      ultimately show ?thesis using loads[OF Some] by auto
    next
      case None
      with h have k: "k = ?k" and g': "g' = new"
        by (auto simp: acc' map_add_def split: if_splits)
      from nokey have "filter (\<lambda>x. key_str e x = ?k) pre = []" by (simp add: filter_empty_conv)
      with k g' show ?thesis by (simp add: new_def)
    qed
    have 4: "mset (concat (map (\<lambda>p. group_loads (snd p)) acc')) = mset (pre @ [l])"
      by (simp add: acc' ms new_def)
    have 5: "\<forall>k \<in> fst ` set acc'. k \<notin> set object_prototype_keys"
      using np notp by (auto simp: acc')
    from 1 2 3 4 5 show ?thesis unfolding filed_def by blast
  qed
qed

lemma filed_from:
  "filed e acc pre \<Longrightarrow> groupByProject_from e acc ls = Inr gs \<Longrightarrow> filed e gs (pre @ ls)"
proof (induction ls arbitrary: acc pre)
  case Nil
  then show ?case by simp
next
  case (Cons l ls)
  from Cons.prems(2) obtain acc' where s: "groupByProject_step e acc l = Inr acc'"
    and r: "groupByProject_from e acc' ls = Inr gs"
    by (auto split: sum.splits)
  from Cons.IH[OF filed_step[OF Cons.prems(1) s] r] show ?case by simp
qed

text \<open>
  Whenever \<^verbatim>\<open>groupByProject\<close> returns, it has partitioned its input: the keys of the groups
  are distinct and are exactly the keys of the records, each group holds, in their order,
  the records that have its key, and the groups together hold every record once. The key of
  a record is the text of the project identifier that \<^verbatim>\<open>normalizeLoad\<close> gives it.
\<close>

lemma groupByProject_partition:
  assumes "groupByProject e loads = Inr gs"
  shows "distinct (map fst gs)"
    and "fst ` set gs = key_str e ` set loads"
    and "\<forall>p \<in> set gs. group_loads (snd p) = filter (\<lambda>l. key_str e l = fst p) loads"
    and "mset (concat (map (\<lambda>p. group_loads (snd p)) gs)) = mset loads"
    and "\<forall>l \<in> set loads. key_str e l = toString_js e (projectId (normalizeLoad e l))"
proof -
  from assms have "filed e gs ([] @ loads)"
    unfolding groupByProject_def by (rule filed_from[OF filed_empty])
  then have f: "filed e gs loads" by simp
  then show d: "distinct (map fst gs)" and "fst ` set gs = key_str e ` set loads"
    and "mset (concat (map (\<lambda>p. group_loads (snd p)) gs)) = mset loads"
    by (simp_all add: filed_def)
  show "\<forall>p \<in> set gs. group_loads (snd p) = filter (\<lambda>l. key_str e l = fst p) loads"
  proof
    fix p assume "p \<in> set gs"
    then have "map_of gs (fst p) = Some (snd p)" using d by simp
    with f show "group_loads (snd p) = filter (\<lambda>l. key_str e l = fst p) loads"
      by (simp add: filed_def)
  qed
  show "\<forall>l \<in> set loads. key_str e l = toString_js e (projectId (normalizeLoad e l))"
    by (simp add: key_str_def normalizeLoad_projectId)
qed

text \<open>The call fails exactly when some record's key is an inherited property name.\<close>

lemma groupByProject_from_fails:
  assumes "filed e acc pre"
  shows "groupByProject_from e acc ls = Inl TypeError \<longleftrightarrow> (\<exists>l \<in> set ls. key_str e l \<in> set object_prototype_keys)"
    and "\<forall>err. groupByProject_from e acc ls = Inl err \<longrightarrow> err = TypeError"
  using assms
proof (induction ls arbitrary: acc pre)
  case Nil
  { case 1 show ?case by simp }
  { case 2 show ?case by simp }
next
  case (Cons l ls)
  {
    case 1
    show ?case
    proof (cases "groupByProject_step e acc l")
      case (Inl err)
      then have "err = TypeError \<and> key_str e l \<in> set object_prototype_keys"
        by (auto simp: groupByProject_step_def key_str_def Let_def split: option.splits if_splits)
      with Inl show ?thesis by simp
    next
      case (Inr acc')
      have "key_str e l \<notin> set object_prototype_keys"
      proof (cases "map_of acc (key_str e l)")
        case None
        with Inr show ?thesis
          by (auto simp: groupByProject_step_def key_str_def Let_def split: if_splits)
      next
        case (Some g)
        then have "key_str e l \<in> fst ` set acc" by (metis map_of_SomeD fst_conv image_eqI)
        with 1 show ?thesis unfolding filed_def by blast
      qed
      with Cons.IH(1)[OF filed_step[OF 1 Inr]] Inr show ?thesis by simp
    qed
  }
  {
    case 2
    show ?case
    proof (cases "groupByProject_step e acc l")
      case (Inl err)
      then have "err = TypeError"
        by (auto simp: groupByProject_step_def key_str_def Let_def split: option.splits if_splits)
      with Inl show ?thesis by simp
    next
      case (Inr acc')
      with Cons.IH(2)[OF filed_step[OF 2 Inr]] show ?thesis by simp
    qed
  }
qed

lemma groupByProject_fails_iff:
  "groupByProject e loads = Inl TypeError \<longleftrightarrow> (\<exists>l \<in> set loads. key_str e l \<in> set object_prototype_keys)"
  unfolding groupByProject_def by (rule groupByProject_from_fails(1)[OF filed_empty])

text \<open>
  Claim C9 says that every input sequence is partitioned and no record is dropped. The
  code does so on every input but those with a record whose project identifier reads as
  a property name that the accumulator \<^verbatim>\<open>{}\<close> inherits from \<^verbatim>\<open>Object.prototype\<close> (lemmas
  \<open>groupByProject_partition\<close> and \<open>groupByProject_fails_iff\<close>): there the call raises a
  \<^verbatim>\<open>TypeError\<close> and files nothing. Evaluated on a regular record followed by a record of
  project \<^verbatim>\<open>'constructor'\<close>:
\<close>

theorem groupByProject_constructor:
  "groupByProject utc_env [alpha1, constructor_load] = Inl TypeError"
proof -
  have "group_key alpha1 = Str ''P1''" "group_key constructor_load = Str ''constructor''"
    by (simp_all add: group_key_def or_js_def alpha1_def constructor_load_def empty_raw_def)
  then show ?thesis
    by (simp add: groupByProject_def groupByProject_step_def Let_def object_prototype_keys_def)
qed

section \<open>The example, evaluated\<close>

text \<open>
  The groups of the example are what \<^verbatim>\<open>groupByProject\<close> makes of its four records, the
  project with the numeric identifier under the key \<^verbatim>\<open>7\<close>. For the two loads of 2.5 tons
  and 1.0 ton of one project and day, \<^verbatim>\<open>buildIIF\<close> emits the header amount 437.50 and the
  detail amounts -312.50 and -125.00.
\<close>

lemma demo_groups_from_loads: "groupByProject utc_env demo_loads = Inr demo_groups"
proof -
  have k: "group_key alpha1 = Str ''P1''" "group_key alpha2 = Str ''P1''"
    "group_key alpha3 = Str ''P1''" "group_key beta1 = Num (Fin 7)"
    by (simp_all add: group_key_def or_js_def alpha1_def alpha2_def alpha3_def beta1_def empty_raw_def)
  have n: "or_js (or_js (alpha1 ''projectName'') (alpha1 ''project_name'')) (Str ''P1'') = Str ''Alpha''"
    "or_js (or_js (beta1 ''projectName'') (beta1 ''project_name'')) (Num (Fin 7)) = Str ''Beta, Inc.''"
    by (simp_all add: or_js_def alpha1_def beta1_def empty_raw_def)
  have s: "toString_js utc_env (Num (Fin 7)) = ''7''"
    by (simp add: eval_digits)
  show ?thesis
    by (simp add: groupByProject_def demo_loads_def demo_groups_def groupByProject_step_def
        k n s object_prototype_keys_def Let_def del: toString_js.simps(7))
qed

lemma demo_normalized:
  "normalizeLoad utc_env alpha1 =
   \<lparr> id_field = Str ''N/A'', date = Str ''2024-01-15'', ticketNumber = Str ''T-1'', hauler = Str [],
     truckId = Str [], weightTons = Fin (5 / 2), weightLbs = Fin 0, materialType = Str ''Mixed C&D'',
     carbonSaved = Fin 0, hash = Str ''abcdef0123456789'', projectId = Str ''P1'',
     projectName = Str ''Alpha'', notes_field = Str [] \<rparr>"
  "normalizeLoad utc_env alpha2 =
   \<lparr> id_field = Str ''N/A'', date = Str ''2024-01-15'', ticketNumber = Str [], hauler = Str ''Bob'',
     truckId = Str [], weightTons = Fin 1, weightLbs = Fin 0, materialType = Str ''Mixed C&D'',
     carbonSaved = Fin 0, hash = Str [], projectId = Str ''P1'',
     projectName = Str ''Alpha'', notes_field = Str [] \<rparr>"
  by (simp_all add: normalizeLoad_def or_js_def alpha1_def alpha2_def empty_raw_def utc_env_def eval_parse)

lemma alpha_day_lines:
  "buildIIF_lines utc_env alpha_day = Inr (iif_header @
     [join_js [TAB] [''TRNS'', ''INVOICE'', ''01/15/2024'', ''Accounts Receivable'', ''Alpha'',
        ''LEED-Alpha'', ''437.50'', ''DS-1000'', ''LEED Compliance Documentation - Alpha'', ''N'', ''Y'',
        ''Net 30''],
      join_js [TAB] [''SPL'', ''INVOICE'', ''01/15/2024'', ''LEED Compliance Services'', ''Alpha'',
        ''LEED-Alpha'', ''-312.50'', ''DS-1000'', ''DivertScan Load #T-1 Mixed C&D | SHA:abcdef01'',
        ''N'', ''2.5000'', ''125.00'', ''LEED Compliance Documentation''],
      join_js [TAB] [''SPL'', ''INVOICE'', ''01/15/2024'', ''LEED Compliance Services'', ''Alpha'',
        ''LEED-Alpha'', ''-125.00'', ''DS-1000'', ''DivertScan Load #N/A Mixed C&D | Bob'',
        ''N'', ''1.0000'', ''125.00'', ''LEED Compliance Documentation''],
      ''ENDTRNS''])"
proof -
  have e: "object_entries alpha_day = alpha_day"
    by (simp add: object_entries_def alpha_day_def is_array_index_def is_digit_def)
  have b: "byDate utc_env [normalizeLoad utc_env alpha1, normalizeLoad utc_env alpha2]
      = [(''01/15/2024'', [normalizeLoad utc_env alpha1, normalizeLoad utc_env alpha2])]"
    by (simp add: byDate_def demo_dates)
  have c: "qbClass_iif ''Alpha'' = ''LEED-Alpha''"
    by (simp add: qbClass_iif_def CLASS_PREFIX_def trim_js_def is_alnum_def is_ws_def)
  have t: "invoiceTotal utc_env [normalizeLoad utc_env alpha1, normalizeLoad utc_env alpha2] = ''437.50''"
    "lineAmount utc_env (normalizeLoad utc_env alpha1) = ''312.50''"
    "lineAmount utc_env (normalizeLoad utc_env alpha2) = ''125.00''"
    "toFixed utc_env (resolveWeightTons utc_env (normalizeLoad utc_env alpha1)) 4 = ''2.5000''"
    "toFixed utc_env (resolveWeightTons utc_env (normalizeLoad utc_env alpha2)) 4 = ''1.0000''"
    "toFixed utc_env (Fin RATE_PER_TON) 2 = ''125.00''"
    by (simp_all add: invoiceTotal_def lineAmount_def tons_alpha RATE_PER_TON_def eval_fixed)
  have m: "iif_memo utc_env (normalizeLoad utc_env alpha1)
      = Inr ''DivertScan Load #T-1 Mixed C&D | SHA:abcdef01''"
    "iif_memo utc_env (normalizeLoad utc_env alpha2) = Inr ''DivertScan Load #N/A Mixed C&D | Bob''"
    by (simp_all add: iif_memo_def demo_normalized ticket_or_id_def or_js_def MEMO_PREFIX_def)
  have s1: "spl_line utc_env ''01/15/2024'' ''Alpha'' ''LEED-Alpha'' ''DS-1000'' (normalizeLoad utc_env alpha1)
      = Inr (join_js [TAB] [''SPL'', ''INVOICE'', ''01/15/2024'', ''LEED Compliance Services'', ''Alpha'',
        ''LEED-Alpha'', ''-312.50'', ''DS-1000'', ''DivertScan Load #T-1 Mixed C&D | SHA:abcdef01'',
        ''N'', ''2.5000'', ''125.00'', ''LEED Compliance Documentation''])"
    by (simp add: spl_line_def Let_def m t INCOME_ACCOUNT_def del: toFixed.simps)
  have s2: "spl_line utc_env ''01/15/2024'' ''Alpha'' ''LEED-Alpha'' ''DS-1000'' (normalizeLoad utc_env alpha2)
      = Inr (join_js [TAB] [''SPL'', ''INVOICE'', ''01/15/2024'', ''LEED Compliance Services'', ''Alpha'',
        ''LEED-Alpha'', ''-125.00'', ''DS-1000'', ''DivertScan Load #N/A Mixed C&D | Bob'',
        ''N'', ''1.0000'', ''125.00'', ''LEED Compliance Documentation''])"
    by (simp add: spl_line_def Let_def m t INCOME_ACCOUNT_def del: toFixed.simps)
  have tr: "trns_line utc_env ''01/15/2024'' ''Alpha'' ''LEED-Alpha'' ''DS-1000''
        [normalizeLoad utc_env alpha1, normalizeLoad utc_env alpha2]
      = join_js [TAB] [''TRNS'', ''INVOICE'', ''01/15/2024'', ''Accounts Receivable'', ''Alpha'',
        ''LEED-Alpha'', ''437.50'', ''DS-1000'', ''LEED Compliance Documentation - Alpha'', ''N'', ''Y'',
        ''Net 30'']"
    by (simp add: trns_line_def t AR_ACCOUNT_def TERMS_def)
  have d: "nat_digits 1000 = ''1000''" by (simp add: eval_digits)
  have "buildIIF_invoices utc_env alpha_day
      = Inr [\<lparr> inv_projectId = ''P1'', inv_date = ''01/15/2024'', inv_docNum = ''DS-1000'',
               inv_lines =
                 [trns_line utc_env ''01/15/2024'' ''Alpha'' ''LEED-Alpha'' ''DS-1000''
                    [normalizeLoad utc_env alpha1, normalizeLoad utc_env alpha2],
                  join_js [TAB] [''SPL'', ''INVOICE'', ''01/15/2024'', ''LEED Compliance Services'', ''Alpha'',
                    ''LEED-Alpha'', ''-312.50'', ''DS-1000'', ''DivertScan Load #T-1 Mixed C&D | SHA:abcdef01'',
                    ''N'', ''2.5000'', ''125.00'', ''LEED Compliance Documentation''],
                  join_js [TAB] [''SPL'', ''INVOICE'', ''01/15/2024'', ''LEED Compliance Services'', ''Alpha'',
                    ''LEED-Alpha'', ''-125.00'', ''DS-1000'', ''DivertScan Load #N/A Mixed C&D | Bob'',
                    ''N'', ''1.0000'', ''125.00'', ''LEED Compliance Documentation''],
                  ''ENDTRNS''] \<rparr>]"
    unfolding buildIIF_invoices_def e
    by (simp add: alpha_day_def b c d s1 s2 Let_def del: join_js.simps)
  then show ?thesis
    by (simp add: buildIIF_lines_def tr del: join_js.simps)
qed

end
